theory Spec2Isabelle
  imports Complex_Main
begin

section \<open>Conventions of the embedding\<close>

text \<open>
  The repository is three Python modules: \<^verbatim>\<open>basis_functions.py\<close> (Lagrange bases and
  piecewise evaluation), \<^verbatim>\<open>solvers.py\<close> (Gauss quadrature and the cG(q) solver) and
  \<^verbatim>\<open>NSQoI_and_error_functions.py\<close> (the reconciled grid of the error estimator and the
  threshold-crossing locator).

  Numbers are exact reals: IEEE rounding is not modelled. Sequences (Python lists and
  one-dimensional numpy arrays) are HOL lists. Degrees and loop counters are natural
  numbers; indices that the source may make negative are integers. Every exception the
  interpreter can raise on the modelled paths is a value of \<open>py_error\<close>, and a fallible
  function returns \<open>py_error + 'a\<close>, with \<open>Inl\<close> for the exception.
\<close>

datatype py_error =
    IndexError          \<comment> \<open>subscript out of range\<close>
  | UnboundLocalError   \<comment> \<open>local variable read before any assignment\<close>
  | ZeroDivisionError   \<comment> \<open>division of Python scalars by zero\<close>
  | ValueError          \<comment> \<open>raised by numpy on a bad argument or shape\<close>
  | LinAlgError         \<comment> \<open>raised by \<^verbatim>\<open>np.linalg.solve\<close> on a singular matrix\<close>

text \<open>Sequencing of fallible steps: the first exception ends the computation.\<close>

definition bind :: "py_error + 'a \<Rightarrow> ('a \<Rightarrow> py_error + 'b) \<Rightarrow> py_error + 'b" where
  "bind r f = (case r of Inl e \<Rightarrow> Inl e | Inr v \<Rightarrow> f v)"

text \<open>
  \<^verbatim>\<open>xs[i]\<close>: a negative index counts from the end; outside \<open>-len \<le> i < len\<close> the
  subscript raises IndexError.
\<close>

definition py_index :: "'a list \<Rightarrow> int \<Rightarrow> py_error + 'a" where
  "py_index xs i =
     (if 0 \<le> i \<and> i < int (length xs) then Inr (xs ! nat i)
      else if i < 0 \<and> - int (length xs) \<le> i then Inr (xs ! nat (int (length xs) + i))
      else Inl IndexError)"

text \<open>
  \<^verbatim>\<open>xs[0:stop]\<close>: a negative \<open>stop\<close> counts from the end, and the bounds are clamped to
  the sequence, so a slice never raises.
\<close>

definition py_prefix :: "'a list \<Rightarrow> int \<Rightarrow> 'a list" where
  "py_prefix xs stop =
     take (nat (if stop < 0 then int (length xs) + stop else stop)) xs"

text \<open>
  \<^verbatim>\<open>a / b\<close> on Python scalars raises ZeroDivisionError for \<open>b = 0\<close>. (On numpy
  \<^verbatim>\<open>float64\<close> operands the quotient is instead an infinity or a NaN, which is not a real
  number; in both cases no real quotient is produced.)
\<close>

definition scalar_div :: "real \<Rightarrow> real \<Rightarrow> py_error + real" where
  "scalar_div num den = (if den \<noteq> 0 then Inr (num / den) else Inl ZeroDivisionError)"


section \<open>The threshold-crossing locator (\<^verbatim>\<open>window_numtime\<close>)\<close>

text \<open>
  The thirteen values that \<^verbatim>\<open>window_numtime\<close> returns, in the source's order
  \<^verbatim>\<open>[YL,Y1,Y2,YR,NL,N1,N2,NR,tL,t1,t2,tR,num_time]\<close>.
\<close>

record nsqoi =
  YL :: "real list"
  Y1 :: "real list"
  Y2 :: "real list"
  YR :: "real list"
  NL :: int
  N1 :: int
  N2 :: int
  NR :: int
  tL :: real
  t1 :: real
  t2 :: real
  tR :: real
  num_time :: real

text \<open>
  The two loop tests of lines 55 and 69. \<^verbatim>\<open>and\<close> evaluates its right operand only
  when the left one holds, so \<^verbatim>\<open>Y[q*i+1]\<close> is read only then.
\<close>

definition crosses_down :: "real list \<Rightarrow> nat \<Rightarrow> real \<Rightarrow> nat \<Rightarrow> py_error + bool" where
  "crosses_down Y q target i =
     bind (py_index Y (int (q * i))) (\<lambda>a.
       if a > target
       then bind (py_index Y (int (q * i + 1))) (\<lambda>b. Inr (b < target))
       else Inr False)"

definition crosses_up :: "real list \<Rightarrow> nat \<Rightarrow> real \<Rightarrow> nat \<Rightarrow> py_error + bool" where
  "crosses_up Y q target i =
     bind (py_index Y (int (q * i))) (\<lambda>a.
       if a < target
       then bind (py_index Y (int (q * i + 1))) (\<lambda>b. Inr (b > target))
       else Inr False)"

text \<open>
  The two tests together, on values that are in range: subinterval \<open>i\<close> is the one
  the loop stops at when this holds for \<open>i\<close> and for no smaller index.
\<close>

definition straddles :: "real list \<Rightarrow> nat \<Rightarrow> real \<Rightarrow> nat \<Rightarrow> bool" where
  "straddles Y q target i =
     ((Y ! (q * i) > target \<and> Y ! (q * i + 1) < target)
      \<or> (Y ! (q * i) < target \<and> Y ! (q * i + 1) > target))"

text \<open>
  The assignments of lines 56--67 (and, identically, 70--81) for the subinterval \<open>i\<close>.
  Only the two subscripts \<^verbatim>\<open>t[i-1]\<close> and \<^verbatim>\<open>t[i+2]\<close> can raise: \<^verbatim>\<open>t[i]\<close> and
  \<^verbatim>\<open>t[i+1]\<close> are in range because \<open>i < len(t) - 1\<close>, and slices never raise. The
  field \<open>num_time\<close> is filled in after the loop.
\<close>

definition window_at :: "real list \<Rightarrow> real list \<Rightarrow> nat \<Rightarrow> nat \<Rightarrow> py_error + nsqoi" where
  "window_at Y t q i =
     bind (py_index t (int i)) (\<lambda>t1v.
     bind (py_index t (int i + 1)) (\<lambda>t2v.
     bind (py_index t (int i - 1)) (\<lambda>tLv.
     bind (py_index t (int i + 2)) (\<lambda>tRv.
       Inr \<lparr> YL = py_prefix Y (int q * int i - int q + 1),
             Y1 = py_prefix Y (int q * int i + 1),
             Y2 = py_prefix Y (int q * int i + int q + 1),
             YR = py_prefix Y (int q * int i + 2 * int q + 1),
             NL = int i - 1, N1 = int i, N2 = int i + 1, NR = int i + 2,
             tL = tLv, t1 = t1v, t2 = t2v, tR = tRv,
             num_time = 0 \<rparr>))))"

text \<open>
  The loop of lines 54--82 over the remaining indices: it stops at the first subinterval
  that passes one of the two tests (\<^verbatim>\<open>break\<close>) and yields \<open>None\<close> when the range is
  exhausted, in which case none of the locals has been assigned.
\<close>

fun window_loop :: "real list \<Rightarrow> real list \<Rightarrow> nat \<Rightarrow> real \<Rightarrow> nat list \<Rightarrow> py_error + nsqoi option" where
  "window_loop Y t q target [] = Inr None"
| "window_loop Y t q target (i # rest) =
     bind (crosses_down Y q target i) (\<lambda>down.
       if down then bind (window_at Y t q i) (\<lambda>w. Inr (Some w))
       else bind (crosses_up Y q target i) (\<lambda>up.
         if up then bind (window_at Y t q i) (\<lambda>w. Inr (Some w))
         else window_loop Y t q target rest))"

text \<open>
  Lines 53--89. After the loop, line 84 reads \<^verbatim>\<open>Y1\<close>: with no assignment this is an
  UnboundLocalError. Otherwise \<^verbatim>\<open>Y1[-1]\<close> and \<^verbatim>\<open>Y2[-1]\<close> are read, the fraction
  \<open>s\<close> is computed and the crossing time interpolated.
\<close>

definition window_numtime :: "real list \<Rightarrow> real list \<Rightarrow> nat \<Rightarrow> real \<Rightarrow> py_error + nsqoi" where
  "window_numtime Y t q target =
     bind (window_loop Y t q target [0..<length t - 1]) (\<lambda>found.
       case found of
         None \<Rightarrow> Inl UnboundLocalError
       | Some w \<Rightarrow>
           bind (py_index (Y1 w) (- 1)) (\<lambda>y1.
           bind (py_index (Y2 w) (- 1)) (\<lambda>y2.
           bind (scalar_div (target - y1) (y2 - y1)) (\<lambda>s.
             Inr (w \<lparr> num_time := s * t2 w + (1 - s) * t1 w \<rparr>)))))"


section \<open>The reconciled grid of the error estimator (\<^verbatim>\<open>get_err_lin\<close>)\<close>

text \<open>
  The search of lines 21--22: the index of the first node that is strictly greater than
  the bound, counting from \<open>i\<close>; \<open>None\<close> when the loop runs to its end without a
  \<^verbatim>\<open>break\<close>.
\<close>

fun first_above :: "real list \<Rightarrow> real \<Rightarrow> nat \<Rightarrow> nat option" where
  "first_above [] bound i = None"
| "first_above (node # nodes) bound i =
     (if node > bound then Some i else first_above nodes bound (Suc i))"

text \<open>
  Lines 18--26 of \<^verbatim>\<open>get_err_lin\<close>, which build the grid \<open>t\<close>. The rest of the function
  (lines 28--40) integrates over \<open>t\<close> without changing it and returns it as the third
  component. When the loop ends without a \<^verbatim>\<open>break\<close>, \<open>t\<close> has no value and its first
  use (line 30) raises UnboundLocalError.
\<close>

definition get_err_lin_grid :: "real list \<Rightarrow> real list \<Rightarrow> py_error + real list" where
  "get_err_lin_grid ty tphi =
     bind (py_index ty (- 1)) (\<lambda>ty_last.
     bind (py_index tphi (- 1)) (\<lambda>tphi_last.
       if ty_last = tphi_last then Inr ty
       else (case first_above ty tphi_last 0 of
               Some i \<Rightarrow> Inr (take i ty @ [tphi_last])
             | None \<Rightarrow> Inl UnboundLocalError)))"


section \<open>Lagrange bases and piecewise evaluation (\<^verbatim>\<open>basis_functions.py\<close>)\<close>

text \<open>
  \<^verbatim>\<open>np.linspace(start, stop, num)\<close> in exact arithmetic: \<open>num\<close> equally spaced points
  from \<open>start\<close> to \<open>stop\<close>, both included; the single point \<open>start\<close> for \<open>num = 1\<close>.
\<close>

definition linspace :: "real \<Rightarrow> real \<Rightarrow> nat \<Rightarrow> real list" where
  "linspace start stop num =
     (if num = 1 then [start]
      else map (\<lambda>k. start + real k * ((stop - start) / real (num - 1))) [0..<num])"

text \<open>
  The three basis functions. At every call in the repository the index \<open>j\<close> comes from
  \<^verbatim>\<open>range(degree+1)\<close> (trial) or \<^verbatim>\<open>range(degree)\<close> (test), so \<open>I ! j\<close> is in range.
  On an interval with \<open>initial = final\<close> the source divides by zero and numpy yields an
  infinity or a NaN, which no real number renders; every statement below about a value
  of these functions is for \<open>initial \<noteq> final\<close>. (\<^verbatim>\<open>evalfunc\<close> and \<^verbatim>\<open>evalderiv\<close> never
  call them otherwise, since \<open>t[i] \<le> x < t[i+1]\<close> must hold.)
\<close>

definition Lagr :: "real \<Rightarrow> real \<Rightarrow> nat \<Rightarrow> nat \<Rightarrow> real \<Rightarrow> real" where
  "Lagr initial final degree j x =
     (let I = linspace initial final (degree + 1)
      in fold (\<lambda>k v. if k \<noteq> j then v * ((x - I ! k) / (I ! j - I ! k)) else v)
           [0..<degree + 1] 1)"

definition dLagr :: "real \<Rightarrow> real \<Rightarrow> nat \<Rightarrow> nat \<Rightarrow> real \<Rightarrow> real" where
  "dLagr initial final degree j x =
     (let I = linspace initial final (degree + 1)
      in fold (\<lambda>m d.
            let v = fold (\<lambda>k v. if k \<noteq> j \<and> k \<noteq> m
                                 then v * ((x - I ! k) / (I ! j - I ! k)) else v)
                      [0..<degree + 1] 1
            in if m \<noteq> j then d + (1 / (I ! j - I ! m)) * v else d)
           [0..<degree + 1] 0)"

definition TestLagr :: "real \<Rightarrow> real \<Rightarrow> nat \<Rightarrow> nat \<Rightarrow> real \<Rightarrow> real" where
  "TestLagr initial final degree j x =
     (let It = linspace initial final degree
      in if degree > 1
         then fold (\<lambda>k z. if k \<noteq> j then z * ((x - It ! k) / (It ! j - It ! k)) else z)
                [0..<degree] 1
         else 1)"

text \<open>
  The inner loop shared by \<^verbatim>\<open>evalfunc\<close> (line 55--56) and \<^verbatim>\<open>evalderiv\<close>
  (lines 68--69): it adds \<open>Y[q*i+j] * basis(t[i], t[i+1], q, j, x)\<close> for
  \<open>j = 0, \<dots>, q\<close> to the running answer. The subscript of \<open>Y\<close> can raise.
\<close>

definition basis_sum ::
  "(real \<Rightarrow> real \<Rightarrow> nat \<Rightarrow> nat \<Rightarrow> real \<Rightarrow> real) \<Rightarrow> real list \<Rightarrow> real list \<Rightarrow> nat \<Rightarrow> real \<Rightarrow> nat \<Rightarrow> real
     \<Rightarrow> py_error + real" where
  "basis_sum basis Y t q x i ans =
     fold (\<lambda>j r. bind r (\<lambda>acc.
             bind (py_index Y (int (q * i + j))) (\<lambda>yv.
               Inr (acc + yv * basis (t ! i) (t ! (i + 1)) q j x))))
       [0..<q + 1] (Inr ans)"

text \<open>
  The outer loop of both functions (lines 53--54 and 66--67): every subinterval
  \<open>i = 0, \<dots>, n - 2\<close> is visited, with no \<^verbatim>\<open>break\<close>, and contributes when
  \<open>t[i] \<le> x < t[i+1]\<close>. The answer starts at 0 and stays 0 when no subinterval
  contains \<open>x\<close>.
\<close>

definition piecewise_loop ::
  "(real \<Rightarrow> real \<Rightarrow> nat \<Rightarrow> nat \<Rightarrow> real \<Rightarrow> real) \<Rightarrow> real list \<Rightarrow> real list \<Rightarrow> nat \<Rightarrow> real
     \<Rightarrow> py_error + real" where
  "piecewise_loop basis Y t q x =
     fold (\<lambda>i r. bind r (\<lambda>ans.
             if t ! i \<le> x \<and> x < t ! (i + 1) then basis_sum basis Y t q x i ans
             else Inr ans))
       [0..<length t - 1] (Inr 0)"

definition evalfunc :: "real list \<Rightarrow> real list \<Rightarrow> nat \<Rightarrow> real \<Rightarrow> py_error + real" where
  "evalfunc Y t q x =
     bind (py_index t (- 1)) (\<lambda>t_last.
       if x = t_last then py_index Y (- 1)
       else piecewise_loop Lagr Y t q x)"

definition evalderiv :: "real list \<Rightarrow> real list \<Rightarrow> nat \<Rightarrow> real \<Rightarrow> py_error + real" where
  "evalderiv Y t q x = piecewise_loop dLagr Y t q x"


section \<open>Quadrature and the cG(q) solver (\<^verbatim>\<open>solvers.py\<close>)\<close>

text \<open>
  Two numpy routines are used by the solver and are not part of the repository; they
  are parameters of the model.
  \<^item> \<^verbatim>\<open>np.polynomial.legendre.leggauss(deg)\<close> returns the points and the weights of
    the Gauss--Legendre rule on \<open>[-1,1]\<close>, two arrays of the same length; it raises
    ValueError for \<open>deg \<le> 0\<close>, which the callers below check before they use it.
  \<^item> \<^verbatim>\<open>np.linalg.solve(A, b)\<close> returns the solution of \<open>A s = b\<close> or raises
    LinAlgError.
  The coefficient function \<open>F\<close> and the integrand \<open>expression\<close> are total real functions:
  they raise nothing.
\<close>

type_synonym leggauss = "nat \<Rightarrow> real list \<times> real list"

type_synonym linsolve = "real list list \<Rightarrow> real list \<Rightarrow> py_error + real list"

text \<open>
  Lines 10--16 of \<^verbatim>\<open>GaussQuad\<close>: the points are mapped to \<open>[initial, final]\<close>, and
  the terms \<open>C * w[k] * expression(g[k])\<close> are added up.
\<close>

definition GaussQuad_sum :: "real list \<Rightarrow> real list \<Rightarrow> real \<Rightarrow> real \<Rightarrow> (real \<Rightarrow> real) \<Rightarrow> real" where
  "GaussQuad_sum p w initial final expression =
     (let C = (final - initial) / 2;
          g = map (\<lambda>pk. C * pk + (initial + final) / 2) p
      in fold (\<lambda>k ans. ans + C * w ! k * expression (g ! k)) [0..<length g] 0)"

definition GaussQuad :: "leggauss \<Rightarrow> real \<Rightarrow> real \<Rightarrow> nat \<Rightarrow> (real \<Rightarrow> real) \<Rightarrow> py_error + real" where
  "GaussQuad leggauss initial final degree expression =
     (if degree = 0 then Inl ValueError
      else case leggauss degree of
             (p, w) \<Rightarrow> Inr (GaussQuad_sum p w initial final expression))"

text \<open>Running a fallible function over a list, left to right.\<close>

fun traverse :: "('a \<Rightarrow> py_error + 'b) \<Rightarrow> 'a list \<Rightarrow> py_error + 'b list" where
  "traverse f [] = Inr []"
| "traverse f (x # xs) = bind (f x) (\<lambda>y. bind (traverse f xs) (\<lambda>ys. Inr (y # ys)))"

text \<open>
  Lines 34--39: the local matrix \<open>a\<close> with \<open>q\<close> rows and \<open>q + 1\<close> columns, as the list
  of its rows. The entry in row \<open>j\<close> and column \<open>i\<close> is the quadrature of order \<open>5q\<close> of
  \<open>TestLagr_j * (dLagr_i - F * Lagr_i)\<close> over the subinterval.
\<close>

definition local_matrix :: "leggauss \<Rightarrow> (real \<Rightarrow> real) \<Rightarrow> real \<Rightarrow> real \<Rightarrow> nat \<Rightarrow> py_error + real list list" where
  "local_matrix leggauss F initial final q =
     traverse (\<lambda>j.
       traverse (\<lambda>i.
         GaussQuad leggauss initial final (5 * q)
           (\<lambda>x. TestLagr initial final q j x *
                  (dLagr initial final q i x - F x * Lagr initial final q i x)))
         [0..<q + 1])
       [0..<q]"

text \<open>
  \<^verbatim>\<open>y[lo:hi] = s\<close> on a one-dimensional numpy array: the bounds are clamped to the
  array; \<open>s\<close> must have the length of the slice, or length 1 (it is then broadcast);
  any other length raises ValueError.
\<close>

definition assign_slice :: "real list \<Rightarrow> nat \<Rightarrow> nat \<Rightarrow> real list \<Rightarrow> py_error + real list" where
  "assign_slice y lo hi s =
     (let lo' = min lo (length y); hi' = max lo' (min hi (length y)); n = hi' - lo'
      in if length s = n then Inr (take lo' y @ s @ drop hi' y)
         else if length s = 1 then Inr (take lo' y @ replicate n (s ! 0) @ drop hi' y)
         else Inl ValueError)"

text \<open>
  The body of the loop over subintervals (lines 30--48): assemble \<open>a\<close>, split off its
  first column, solve, and write the solution into \<open>y[n*q+1 : (n+1)*q+1]\<close>.
\<close>

definition solve_lin_step ::
  "leggauss \<Rightarrow> linsolve \<Rightarrow> (real \<Rightarrow> real) \<Rightarrow> real list \<Rightarrow> nat \<Rightarrow> nat \<Rightarrow> real list \<Rightarrow> py_error + real list" where
  "solve_lin_step leggauss solve F t q n y =
     bind (local_matrix leggauss F (t ! n) (t ! (n + 1)) q) (\<lambda>a.
       let A = map (\<lambda>row. drop 1 (take (q + 1) row)) (take q a);
           b = map (\<lambda>row. - (y ! (n * q)) * row ! 0) a
       in bind (solve A b) (\<lambda>s. assign_slice y (n * q + 1) ((n + 1) * q + 1) s))"

text \<open>
  \<^verbatim>\<open>solve_lin\<close> (lines 21--50). The array \<open>y\<close> has \<open>N*q + 1\<close> entries, none when that
  number is not positive, and then \<^verbatim>\<open>y[0] = y0\<close> raises IndexError. Line 25 calls
  \<^verbatim>\<open>leggauss(5*q)\<close>, which raises ValueError for \<open>q = 0\<close>.
\<close>

definition solve_lin ::
  "leggauss \<Rightarrow> linsolve \<Rightarrow> real \<Rightarrow> (real \<Rightarrow> real) \<Rightarrow> real list \<Rightarrow> nat \<Rightarrow> py_error + real list" where
  "solve_lin leggauss solve y0 F t q =
     (let N = int (length t) - 1; size = N * int q + 1
      in if size \<le> 0 then Inl IndexError
         else if 5 * q = 0 then Inl ValueError
         else fold (\<lambda>n r. bind r (solve_lin_step leggauss solve F t q n))
                [0..<nat N] (Inr ((replicate (nat size) 0)[0 := y0])))"


section \<open>Stand-ins for the numpy routines in the worked examples\<close>

text \<open>
  The theorems below hold for every quadrature rule and every solver that meet the
  stated conditions. Where a theorem is applied to concrete data, these two stand in
  for the library: the composite midpoint rule with \<open>n\<close> points on \<open>[-1,1]\<close>, and a
  solver for diagonal systems, which is exact on the \<open>1 \<times> 1\<close> systems of degree 1.
\<close>

definition midpoint_rule :: leggauss where
  "midpoint_rule n =
     (map (\<lambda>k. (2 * real k + 1) / real n - 1) [0..<n], replicate n (2 / real n))"

definition diagonal_solve :: linsolve where
  "diagonal_solve A b =
     (if list_ex (\<lambda>i. A ! i ! i = 0) [0..<length b] then Inl LinAlgError
      else Inr (map (\<lambda>i. b ! i / A ! i ! i) [0..<length b]))"


section \<open>Mathematical notions used in the statements and proofs\<close>

text \<open>
  The \<open>k\<close>-th of \<open>n + 1\<close> equally spaced nodes on \<open>[a, b]\<close>, and the Lagrange cardinal
  function and its derivative for the nodes \<open>x 0, \<dots>, x (n - 1)\<close>, as a product and a
  sum over index sets. The loops of \<^verbatim>\<open>Lagr\<close>, \<^verbatim>\<open>dLagr\<close> and \<^verbatim>\<open>TestLagr\<close> are shown
  below to compute them.
\<close>

definition equispaced :: "real \<Rightarrow> real \<Rightarrow> nat \<Rightarrow> nat \<Rightarrow> real" where
  "equispaced a b n k = a + real k * ((b - a) / real n)"

definition lagrange :: "(nat \<Rightarrow> real) \<Rightarrow> nat \<Rightarrow> nat \<Rightarrow> real \<Rightarrow> real" where
  "lagrange x n j z = (\<Prod>k\<in>{..<n} - {j}. (z - x k) / (x j - x k))"

definition lagrange_deriv :: "(nat \<Rightarrow> real) \<Rightarrow> nat \<Rightarrow> nat \<Rightarrow> real \<Rightarrow> real" where
  "lagrange_deriv x n j z =
     (\<Sum>m\<in>{..<n} - {j}. 1 / (x j - x m) * (\<Prod>k\<in>{..<n} - {j, m}. (z - x k) / (x j - x k)))"


text \<open>
  Real functions that are polynomials of degree at most \<open>n\<close>.
\<close>

definition poly_upto :: "nat \<Rightarrow> (real \<Rightarrow> real) \<Rightarrow> bool" where
  "poly_upto n f = (\<exists>c. \<forall>z. f z = (\<Sum>i\<le>n. c i * z ^ i))"

text \<open>
  The product of a matrix, given as the list of its rows, with a vector; and what
  \<^verbatim>\<open>np.linalg.solve\<close> guarantees in exact arithmetic on systems of \<open>q\<close> equations in
  \<open>q\<close> unknowns: the vector it returns solves the system, and it raises only when the
  matrix is singular, that is, when the matrix maps some non-zero vector to zero.
\<close>

definition mat_vec :: "real list list \<Rightarrow> real list \<Rightarrow> real list" where
  "mat_vec A v = map (\<lambda>row. \<Sum>i<length v. row ! i * v ! i) A"

definition exact_solver :: "linsolve \<Rightarrow> nat \<Rightarrow> bool" where
  "exact_solver solve q =
     (\<forall>A b. length A = q \<and> (\<forall>row\<in>set A. length row = q) \<and> length b = q \<longrightarrow>
        (case solve A b of
           Inr s \<Rightarrow> length s = q \<and> mat_vec A s = b
         | Inl e \<Rightarrow> \<exists>v. length v = q \<and> v \<noteq> replicate q 0 \<and> mat_vec A v = replicate q 0))"


section \<open>The worked example of the locator\<close>

text \<open>
  C1. On the mesh \<open>[0,1,2,3,4,5]\<close> with degree 1, values \<open>[5,4,3,2,1,0,-1]\<close> and target
  \<open>1.5\<close>, \<^verbatim>\<open>window_numtime\<close> stops at the subinterval whose end values are 2 and 1, so
  \<open>t1 = 3\<close> and \<open>t2 = 4\<close>; the fraction is \<open>(1.5 - 2) / (1 - 2) = 0.5\<close> and the
  returned crossing time is \<open>0.5 * 4 + 0.5 * 3 = 3.5\<close>, strictly between the two mesh
  times.
\<close>

theorem window_numtime_example:
  "window_numtime [5, 4, 3, 2, 1, 0, -1] [0, 1, 2, 3, 4, 5] 1 (3 / 2) =
     Inr \<lparr> YL = [5, 4, 3], Y1 = [5, 4, 3, 2], Y2 = [5, 4, 3, 2, 1], YR = [5, 4, 3, 2, 1, 0],
           NL = 2, N1 = 3, N2 = 4, NR = 5,
           tL = 2, t1 = 3, t2 = 4, tR = 5,
           num_time = 7 / 2 \<rparr>
   \<and> (3 / 2 - 2) / (1 - 2) = (1 / 2 :: real)
   \<and> (1 / 2) * 4 + (1 - 1 / 2) * 3 = (7 / 2 :: real)
   \<and> (3 :: real) < 7 / 2 \<and> (7 / 2 :: real) < 4"
  by (simp add: window_numtime_def window_at_def crosses_down_def crosses_up_def
      bind_def py_index_def py_prefix_def scalar_div_def upt_rec)


section \<open>The reconciled grid\<close>

text \<open>
  C2 (evaluation of the code). For the forward mesh \<open>[0,1,2]\<close> and an adjoint mesh that
  ends at the interior forward node 1, the final nodes differ, the first forward node
  strictly greater than 1 is \<open>ty[2]\<close>, and the grid is the prefix \<open>[0,1]\<close> with 1
  appended: the node 1 occurs twice, so the grid has a subinterval of length zero and
  is not strictly increasing, and the prefix kept is not made of nodes less than 1.
\<close>

theorem get_err_lin_grid_repeats_node:
  "get_err_lin_grid [0, 1, 2] [0, 1] = Inr [0, 1, 1]
   \<and> \<not> sorted_wrt (<) [0, 1, 1 :: real]
   \<and> sorted_wrt (<) [0, 1, 2 :: real] \<and> sorted_wrt (<) [0, 1 :: real]"
  by (simp add: get_err_lin_grid_def bind_def py_index_def)

section \<open>Piecewise evaluation away from the mesh and at its final node\<close>

lemma piecewise_loop_skip:
  "(\<And>i. i \<in> set idx \<Longrightarrow> \<not> (t ! i \<le> x \<and> x < t ! (i + 1))) \<Longrightarrow>
   fold (\<lambda>i r. bind r (\<lambda>ans.
             if t ! i \<le> x \<and> x < t ! (i + 1) then basis_sum basis Y t q x i ans
             else Inr ans)) idx (Inr a) = Inr a"
  by (induction idx) (auto simp: bind_def)

lemma piecewise_loop_below:
  assumes "sorted_wrt (<) t" "t \<noteq> []" "x < t ! 0"
  shows "piecewise_loop basis Y t q x = Inr 0"
  unfolding piecewise_loop_def
proof (rule piecewise_loop_skip)
  fix i assume "i \<in> set [0..<length t - 1]"
  then have i: "i < length t" by auto
  have "t ! 0 \<le> t ! i"
    using assms(1) i by (cases "i = 0") (auto simp: sorted_wrt_iff_nth_less less_imp_le)
  with assms(3) show "\<not> (t ! i \<le> x \<and> x < t ! (i + 1))" by simp
qed

lemma piecewise_loop_above:
  assumes "sorted_wrt (<) t" "t \<noteq> []" "t ! (length t - 1) \<le> x"
  shows "piecewise_loop basis Y t q x = Inr 0"
  unfolding piecewise_loop_def
proof (rule piecewise_loop_skip)
  fix i assume "i \<in> set [0..<length t - 1]"
  then have i: "i + 1 < length t" by auto
  have "t ! (i + 1) \<le> t ! (length t - 1)"
    using assms(1) i
    by (cases "i + 1 = length t - 1") (auto simp: sorted_wrt_iff_nth_less less_imp_le)
  with assms(3) show "\<not> (t ! i \<le> x \<and> x < t ! (i + 1))" by simp
qed

lemma py_index_last: "t \<noteq> [] \<Longrightarrow> py_index t (- 1) = Inr (t ! (length t - 1))"
  by (cases t) (auto simp: py_index_def nat_diff_distrib' of_nat_diff)

text \<open>
  C4 (as amended). For a strictly increasing, non-empty mesh and a query point \<open>x\<close>
  outside its span (\<open>x < t[0]\<close> or \<open>x > t[-1]\<close>), \<^verbatim>\<open>evalfunc\<close> and \<^verbatim>\<open>evalderiv\<close>
  check nothing and report no failure: no subinterval contains \<open>x\<close>, and both return
  the initial answer 0.
\<close>

theorem evalfunc_evalderiv_outside_zero:
  assumes "sorted_wrt (<) t" "t \<noteq> []" "x < t ! 0 \<or> t ! (length t - 1) < x"
  shows "evalfunc Y t q x = Inr 0 \<and> evalderiv Y t q x = Inr 0"
proof -
  have loop: "piecewise_loop basis Y t q x = Inr 0" for basis
    using assms piecewise_loop_below piecewise_loop_above by (metis less_imp_le)
  have "t ! 0 \<le> t ! (length t - 1)"
    using assms(1,2)
    by (cases "length t - 1 = 0") (auto simp: sorted_wrt_iff_nth_less less_imp_le)
  with assms(3) have "x \<noteq> t ! (length t - 1)" by auto
  then show ?thesis
    using assms(2) loop by (simp add: evalfunc_def evalderiv_def py_index_last bind_def)
qed

theorem evalfunc_evalderiv_outside_zero_witness:
  "sorted_wrt (<) [0, 1 :: real] \<and> [0, 1 :: real] \<noteq> []
   \<and> ((5 :: real) < [0, 1] ! 0 \<or> [0, 1] ! (length [0, 1 :: real] - 1) < (5 :: real))
   \<and> evalfunc [1, 2] [0, 1] 1 5 = Inr 0 \<and> evalderiv [1, 2] [0, 1] 1 5 = Inr 0"
  using evalfunc_evalderiv_outside_zero [of "[0, 1]" 5 "[1, 2]" 1] by simp

text \<open>
  C4 as stated fails: on the mesh \<open>[0,1]\<close> with values \<open>[1,2]\<close> and degree 1, the
  queries at 5 and at \<open>-1\<close> lie outside the span, and both functions return the number
  0 instead of a failure.
\<close>

theorem evalfunc_outside_counterexample:
  "evalfunc [1, 2] [0, 1] 1 5 = Inr 0 \<and> evalderiv [1, 2] [0, 1] 1 5 = Inr 0
   \<and> evalfunc [1, 2] [0, 1] 1 (- 1) = Inr 0 \<and> evalderiv [1, 2] [0, 1] 1 (- 1) = Inr 0"
  by (simp add: evalfunc_def evalderiv_def piecewise_loop_def bind_def py_index_def)

text \<open>
  C5 (evaluation of the code). For the values \<open>[0,1]\<close> on the mesh \<open>[0,1]\<close> with degree
  1, the last (and only) subinterval carries the polynomial \<open>x\<close>, whose derivative
  \<open>\<Sum>j. Y[j] * dLagr(0, 1, 1, j, 1)\<close> is 1. At the final node \<open>x = 1\<close> the test
  \<open>t[i] \<le> x < t[i+1]\<close> fails for every subinterval, so \<^verbatim>\<open>evalderiv\<close> returns 0, while
  \<^verbatim>\<open>evalfunc\<close> treats the final node separately and returns the last value.
\<close>

theorem evalderiv_final_node_zero:
  "evalderiv [0, 1] [0, 1] 1 1 = Inr 0
   \<and> 0 * dLagr 0 1 1 0 1 + 1 * dLagr 0 1 1 1 1 = (1 :: real)
   \<and> evalfunc [0, 1] [0, 1] 1 1 = Inr 1"
  by (simp add: evalfunc_def evalderiv_def piecewise_loop_def bind_def py_index_def
      dLagr_def linspace_def upt_rec)

text \<open>The same happens on every strictly increasing mesh.\<close>

lemma evalderiv_last_node:
  assumes "sorted_wrt (<) t" "t \<noteq> []"
  shows "evalderiv Y t q (t ! (length t - 1)) = Inr 0"
  using piecewise_loop_above [OF assms] by (simp add: evalderiv_def)


section \<open>What the locator does at its boundary cases\<close>

lemma py_index_nat: "i < length xs \<Longrightarrow> py_index xs (int i) = Inr (xs ! i)"
  by (simp add: py_index_def)

lemma crosses_down_eval:
  "q * i + 1 < length Y \<Longrightarrow>
   crosses_down Y q target i = Inr (Y ! (q * i) > target \<and> Y ! (q * i + 1) < target)"
  using py_index_nat [of "q * i" Y] py_index_nat [of "q * i + 1" Y]
  unfolding crosses_down_def by (auto simp: bind_def)

lemma crosses_up_eval:
  "q * i + 1 < length Y \<Longrightarrow>
   crosses_up Y q target i = Inr (Y ! (q * i) < target \<and> Y ! (q * i + 1) > target)"
  using py_index_nat [of "q * i" Y] py_index_nat [of "q * i + 1" Y]
  unfolding crosses_up_def by (auto simp: bind_def)

lemma window_loop_none:
  "(\<And>k. k \<in> set idx \<Longrightarrow> q * k + 1 < length Y \<and> \<not> straddles Y q target k) \<Longrightarrow>
   window_loop Y t q target idx = Inr None"
  by (induction idx) (auto simp: crosses_down_eval crosses_up_eval bind_def straddles_def)

lemma window_loop_first:
  assumes "\<And>k. k \<in> set pre \<Longrightarrow> q * k + 1 < length Y \<and> \<not> straddles Y q target k"
    and "q * i + 1 < length Y" and "straddles Y q target i"
  shows "window_loop Y t q target (pre @ i # rest) = bind (window_at Y t q i) (\<lambda>w. Inr (Some w))"
  using assms
  by (induction pre) (auto simp: crosses_down_eval crosses_up_eval bind_def straddles_def)

lemma range_split: "i < n \<Longrightarrow> [0..<n] = [0..<i] @ i # [Suc i..<n]"
  by (metis le_add2 le_add_same_cancel2 less_imp_add_positive upt_add_eq_append upt_conv_Cons)

lemma index_bound:
  assumes "1 \<le> q" "q * (length t - 1) + 1 \<le> length Y" "k < length t - 1"
  shows "q * k + 1 < length Y" "q * k + q < length Y"
proof -
  have "q * k + q = q * (k + 1)" by simp
  also have "\<dots> \<le> q * (length t - 1)" using assms(3) by (intro mult_le_mono2) simp
  finally show "q * k + q < length Y" using assms(2) by simp
  then show "q * k + 1 < length Y" using assms(1) by simp
qed

lemma window_loop_found:
  assumes "1 \<le> q" "q * (length t - 1) + 1 \<le> length Y"
    and "i < length t - 1" "straddles Y q target i" "\<forall>k<i. \<not> straddles Y q target k"
  shows "window_loop Y t q target [0..<length t - 1] = bind (window_at Y t q i) (\<lambda>w. Inr (Some w))"
proof -
  have "window_loop Y t q target ([0..<i] @ i # [Suc i..<length t - 1])
        = bind (window_at Y t q i) (\<lambda>w. Inr (Some w))"
  proof (rule window_loop_first)
    fix k assume "k \<in> set [0..<i]"
    then have "k < i" by simp
    then show "q * k + 1 < length Y \<and> \<not> straddles Y q target k"
      using assms index_bound(1)[of q t Y k] by simp
  qed (use assms index_bound(1)[of q t Y i] in auto)
  then show ?thesis using range_split[OF assms(3)] by simp
qed

lemma window_at_last:
  "i + 2 = length t \<Longrightarrow> window_at Y t q i = Inl IndexError"
  by (auto simp: window_at_def bind_def py_index_def)

lemma window_at_inner:
  assumes "i + 2 < length t"
  shows "window_at Y t q i =
     Inr \<lparr> YL = py_prefix Y (int q * int i - int q + 1),
           Y1 = py_prefix Y (int q * int i + 1),
           Y2 = py_prefix Y (int q * int i + int q + 1),
           YR = py_prefix Y (int q * int i + 2 * int q + 1),
           NL = int i - 1, N1 = int i, N2 = int i + 1, NR = int i + 2,
           tL = (if i = 0 then t ! (length t - 1) else t ! (i - 1)),
           t1 = t ! i, t2 = t ! (i + 1), tR = t ! (i + 2),
           num_time = 0 \<rparr>"
  using assms
  by (auto simp: window_at_def bind_def py_index_def nat_add_distrib nat_diff_distrib' of_nat_diff)

lemma prefix_last:
  assumes "n < length Y"
  shows "py_index (py_prefix Y (int n + 1)) (- 1) = Inr (Y ! n)"
proof -
  have "py_prefix Y (int n + 1) = take (Suc n) Y"
    by (simp add: py_prefix_def nat_add_distrib)
  moreover have "take (Suc n) Y \<noteq> []" "length (take (Suc n) Y) = Suc n"
    using assms by auto
  ultimately show ?thesis
    using py_index_last [of "take (Suc n) Y"] by simp
qed

lemma Y1_last:
  assumes "q * i < length Y"
  shows "py_index (py_prefix Y (int q * int i + 1)) (- 1) = Inr (Y ! (q * i))"
  using prefix_last[OF assms] by simp

lemma Y2_last:
  assumes "q * i + q < length Y"
  shows "py_index (py_prefix Y (int q * int i + int q + 1)) (- 1) = Inr (Y ! (q * i + q))"
  using prefix_last[OF assms] by simp

text \<open>
  C3 (as amended). Let the degree be positive and the value vector at least as long as
  the mesh requires. \<^verbatim>\<open>window_numtime\<close> makes no check of its own; what reaches the
  caller is the interpreter's exception:
  \<^item> when no subinterval straddles the target, the read of the unassigned \<^verbatim>\<open>Y1\<close>
    raises UnboundLocalError;
  \<^item> when the first straddling subinterval is the last one, \<^verbatim>\<open>t[i+2]\<close> raises
    IndexError;
  \<^item> when the first straddling subinterval has a right neighbour and
    \<open>Y2_last = Y1_last\<close>, the division raises ZeroDivisionError.
  Nothing is said here about a crossing in the first subinterval.
\<close>

theorem window_numtime_failures:
  assumes "1 \<le> q" "q * (length t - 1) + 1 \<le> length Y"
  shows "((\<forall>i < length t - 1. \<not> straddles Y q target i) \<longrightarrow>
            window_numtime Y t q target = Inl UnboundLocalError)
       \<and> (i < length t - 1 \<and> straddles Y q target i \<and> (\<forall>k<i. \<not> straddles Y q target k) \<longrightarrow>
            (i + 2 = length t \<longrightarrow> window_numtime Y t q target = Inl IndexError)
          \<and> (i + 2 < length t \<and> Y ! (q * i + q) = Y ! (q * i) \<longrightarrow>
               window_numtime Y t q target = Inl ZeroDivisionError))"
proof (intro conjI impI)
  assume "\<forall>i < length t - 1. \<not> straddles Y q target i"
  then have "window_loop Y t q target [0..<length t - 1] = Inr None"
    using index_bound(1)[OF assms] by (intro window_loop_none) simp
  then show "window_numtime Y t q target = Inl UnboundLocalError"
    by (simp add: window_numtime_def bind_def)
next
  assume first: "i < length t - 1 \<and> straddles Y q target i \<and> (\<forall>k<i. \<not> straddles Y q target k)"
    and "i + 2 = length t"
  then show "window_numtime Y t q target = Inl IndexError"
    using window_loop_found[OF assms, of i target] window_at_last[of i t Y q]
    by (simp add: window_numtime_def bind_def)
next
  assume first: "i < length t - 1 \<and> straddles Y q target i \<and> (\<forall>k<i. \<not> straddles Y q target k)"
    and zero: "i + 2 < length t \<and> Y ! (q * i + q) = Y ! (q * i)"
  have b: "q * i + q < length Y" "q * i < length Y"
    using index_bound(2)[OF assms, of i] first by simp_all
  show "window_numtime Y t q target = Inl ZeroDivisionError"
    using window_loop_found[OF assms, of i target] first zero window_at_inner[of i t Y q]
      Y1_last[OF b(2)] Y2_last[OF b(1)]
    by (simp add: window_numtime_def bind_def scalar_div_def)
qed

text \<open>
  C10 (as amended). Let the degree be positive, the mesh strictly increasing with at
  least three nodes, the value vector at least as long as the mesh requires, the first
  subinterval straddle the target, and \<open>Y2_last \<noteq> Y1_last\<close>. Then
  \<^verbatim>\<open>window_numtime\<close> raises nothing and returns \<open>NL = -1\<close> and \<open>tL\<close> equal to the
  last mesh node (the index \<open>-1\<close> wraps around), which is later than \<open>t2\<close>; for degree
  1 the crossing time lies between \<open>t1\<close> and \<open>t2\<close>, so \<open>tL\<close> is also later than the
  crossing time.
\<close>

theorem window_numtime_first_subinterval:
  assumes "1 \<le> q" "q * (length t - 1) + 1 \<le> length Y" "3 \<le> length t" "sorted_wrt (<) t"
    and "straddles Y q target 0" "Y ! q \<noteq> Y ! 0"
  shows "\<exists>r. window_numtime Y t q target = Inr r
           \<and> NL r = - 1 \<and> tL r = t ! (length t - 1) \<and> t1 r = t ! 0 \<and> t2 r = t ! 1
           \<and> t2 r < tL r
           \<and> (q = 1 \<longrightarrow> t1 r < num_time r \<and> num_time r < t2 r \<and> num_time r < tL r)"
proof -
  define s where "s = (target - Y ! 0) / (Y ! q - Y ! 0)"
  define w where "w = \<lparr> YL = py_prefix Y (int q * int 0 - int q + 1),
           Y1 = py_prefix Y (int q * int 0 + 1),
           Y2 = py_prefix Y (int q * int 0 + int q + 1),
           YR = py_prefix Y (int q * int 0 + 2 * int q + 1),
           NL = int 0 - 1, N1 = int 0, N2 = int 0 + 1, NR = int 0 + 2,
           tL = t ! (length t - 1),
           t1 = t ! 0, t2 = t ! (0 + 1), tR = t ! (0 + 2),
           num_time = 0 \<rparr>"
  have b: "q * 0 + q < length Y" "q * 0 < length Y"
    using index_bound(2)[OF assms(1,2), of 0] assms(3) by auto
  have at: "window_at Y t q 0 = Inr w"
    using window_at_inner[of 0 t Y q] assms(3) by (simp add: w_def)
  have loop: "window_loop Y t q target [0..<length t - 1] = Inr (Some w)"
    using window_loop_found[OF assms(1,2), of 0 target] assms(3,5) at by (simp add: bind_def)
  have res: "window_numtime Y t q target = Inr (w \<lparr> num_time := s * t2 w + (1 - s) * t1 w \<rparr>)"
    using loop Y1_last[OF b(2)] Y2_last[OF b(1)] assms(6)
    by (simp add: window_numtime_def bind_def scalar_div_def s_def w_def)
  have t01: "t ! 0 < t ! 1" and t1l: "t ! 1 < t ! (length t - 1)"
    using assms(3,4) by (auto simp: sorted_wrt_iff_nth_less)
  have q1: "t ! 0 < s * t ! 1 + (1 - s) * t ! 0 \<and> s * t ! 1 + (1 - s) * t ! 0 < t ! 1" if "q = 1"
  proof -
    have s01: "0 < s \<and> s < 1"
      using assms(5) that unfolding s_def straddles_def
      by (auto simp: field_simps divide_less_eq zero_less_divide_iff)
    have "s * t ! 1 + (1 - s) * t ! 0 - t ! 0 = s * (t ! 1 - t ! 0)" by (simp add: algebra_simps)
    moreover have "t ! 1 - (s * t ! 1 + (1 - s) * t ! 0) = (1 - s) * (t ! 1 - t ! 0)"
      by (simp add: algebra_simps)
    moreover have "0 < s * (t ! 1 - t ! 0)" "0 < (1 - s) * (t ! 1 - t ! 0)"
      using s01 t01 by simp_all
    ultimately show ?thesis by linarith
  qed
  show ?thesis
    using res t01 t1l q1 by (auto simp: w_def)
qed

theorem window_numtime_failures_witness:
  "(1::nat) \<le> 1 \<and> 1 * (length [0, 1, 2 :: real] - 1) + 1 \<le> length [5, 4, 3 :: real]
   \<and> \<not> straddles [5, 4, 3] 1 1 0 \<and> \<not> straddles [5, 4, 3] 1 1 1
   \<and> window_numtime [5, 4, 3] [0, 1, 2] 1 1 = Inl UnboundLocalError
   \<and> (1::nat) < length [0, 1, 2 :: real] - 1 \<and> straddles [5, 4, 0] 1 1 1
   \<and> \<not> straddles [5, 4, 0] 1 1 0 \<and> 1 + 2 = length [0, 1, 2 :: real]
   \<and> window_numtime [5, 4, 0] [0, 1, 2] 1 1 = Inl IndexError
   \<and> (1::nat) \<le> 2 \<and> 2 * (length [0, 1, 2, 3 :: real] - 1) + 1 \<le> length [5, 5, 2, 0, 2, 0, 0 :: real]
   \<and> (1::nat) < length [0, 1, 2, 3 :: real] - 1 \<and> straddles [5, 5, 2, 0, 2, 0, 0] 2 1 1
   \<and> \<not> straddles [5, 5, 2, 0, 2, 0, 0] 2 1 0 \<and> 1 + 2 < length [0, 1, 2, 3 :: real]
   \<and> [5, 5, 2, 0, 2, 0, 0 :: real] ! (2 * 1 + 2) = [5, 5, 2, 0, 2, 0, 0] ! (2 * 1)
   \<and> window_numtime [5, 5, 2, 0, 2, 0, 0] [0, 1, 2, 3] 2 1 = Inl ZeroDivisionError"
  using window_numtime_failures [of 1 "[0, 1, 2]" "[5, 4, 3]" 1 0]
    window_numtime_failures [of 1 "[0, 1, 2]" "[5, 4, 0]" 1 1]
    window_numtime_failures [of 2 "[0, 1, 2, 3]" "[5, 5, 2, 0, 2, 0, 0]" 1 1]
  by (simp add: straddles_def less_Suc_eq)

text \<open>
  C3 as stated fails. With values \<open>[2,0,-1]\<close> on the mesh \<open>[0,1,2]\<close>, degree 1 and
  target 1, the crossing is in the first subinterval and the call returns normally,
  with \<open>NL = -1\<close> and \<open>tL = 2\<close>: no error is reported. With no crossing
  (\<open>[5,4,3]\<close>) and with a crossing in the last subinterval (\<open>[5,4,0]\<close>) the call
  ends in the very exceptions the claim excludes, an unbound variable and an
  out-of-range subscript.
\<close>

theorem window_numtime_unguarded_counterexample:
  "window_numtime [2, 0, -1] [0, 1, 2] 1 1 =
     Inr \<lparr> YL = [], Y1 = [2], Y2 = [2, 0], YR = [2, 0, -1],
           NL = - 1, N1 = 0, N2 = 1, NR = 2,
           tL = 2, t1 = 0, t2 = 1, tR = 2, num_time = 1 / 2 \<rparr>
   \<and> window_numtime [5, 4, 3] [0, 1, 2] 1 1 = Inl UnboundLocalError
   \<and> window_numtime [5, 4, 0] [0, 1, 2] 1 1 = Inl IndexError"
  by (simp add: window_numtime_def window_at_def crosses_down_def crosses_up_def
      bind_def py_index_def py_prefix_def scalar_div_def upt_rec)

theorem window_numtime_first_subinterval_witness:
  "(1::nat) \<le> 1 \<and> 1 * (length [0, 1, 2 :: real] - 1) + 1 \<le> length [2, 0, -1 :: real]
   \<and> 3 \<le> length [0, 1, 2 :: real] \<and> sorted_wrt (<) [0, 1, 2 :: real]
   \<and> straddles [2, 0, -1] 1 1 0 \<and> [2, 0, -1 :: real] ! 1 \<noteq> [2, 0, -1] ! 0
   \<and> (\<exists>r. window_numtime [2, 0, -1] [0, 1, 2] 1 1 = Inr r
           \<and> NL r = - 1 \<and> tL r = [0, 1, 2] ! (length [0, 1, 2 :: real] - 1)
           \<and> t1 r = [0, 1, 2] ! 0 \<and> t2 r = [0, 1, 2] ! 1
           \<and> t2 r < tL r
           \<and> t1 r < num_time r \<and> num_time r < t2 r \<and> num_time r < tL r)"
  using window_numtime_first_subinterval [of 1 "[0, 1, 2]" "[2, 0, -1]" 1]
  by (simp add: straddles_def)

text \<open>
  C10 as stated fails in two places. On a mesh of two nodes the first subinterval is
  also the last, and \<^verbatim>\<open>t[i+2]\<close> raises IndexError. For degree 2 the fraction \<open>s\<close>
  uses \<open>Y[2]\<close>, which need not lie across the target from \<open>Y[0]\<close>: here \<open>s = 2\<close>,
  the crossing time is 4, and \<open>tL = 3\<close> is earlier than it.
\<close>

theorem window_numtime_first_subinterval_counterexample:
  "window_numtime [2, 0] [0, 1] 1 1 = Inl IndexError
   \<and> window_numtime [2, 0, 3 / 2, 0, 0] [0, 2, 3] 2 1 =
     Inr \<lparr> YL = py_prefix [2, 0, 3 / 2, 0, 0] (- 1), Y1 = [2], Y2 = [2, 0, 3 / 2],
           YR = [2, 0, 3 / 2, 0, 0],
           NL = - 1, N1 = 0, N2 = 1, NR = 2,
           tL = 3, t1 = 0, t2 = 2, tR = 3, num_time = 4 \<rparr>"
  by (simp add: window_numtime_def window_at_def crosses_down_def crosses_up_def
      bind_def py_index_def py_prefix_def scalar_div_def upt_rec)

section \<open>The nodal vector of the solver\<close>

lemma bind_Inr_iff: "bind r f = Inr y \<longleftrightarrow> (\<exists>v. r = Inr v \<and> f v = Inr y)"
  by (cases r) (simp_all add: bind_def)

lemma assign_slice_length:
  "assign_slice y lo hi s = Inr y' \<Longrightarrow> length y' = length y"
  by (auto simp: assign_slice_def Let_def split: if_splits)

lemma assign_slice_frame:
  assumes "assign_slice y lo hi s = Inr y'" "i < length y" "i < lo \<or> hi \<le> i"
  shows "y' ! i = y ! i"
  using assms
  by (auto simp: assign_slice_def Let_def nth_append min_def max_def split: if_splits)

lemma assign_slice_fits:
  assumes "lo \<le> hi" "hi \<le> length y" "length s = hi - lo"
  shows "assign_slice y lo hi s = Inr (take lo y @ s @ drop hi y)"
  using assms by (simp add: assign_slice_def Let_def min_def max_def)

lemma solve_lin_step_frame:
  assumes "solve_lin_step leggauss solve F t q n y = Inr y'"
  shows "length y' = length y"
    and "i < length y \<Longrightarrow> i < n * q + 1 \<or> (n + 1) * q < i \<Longrightarrow> y' ! i = y ! i"
proof -
  from assms obtain s where s: "assign_slice y (n * q + 1) ((n + 1) * q + 1) s = Inr y'"
    by (auto simp: solve_lin_step_def bind_Inr_iff Let_def)
  show "length y' = length y" using s by (rule assign_slice_length)
  show "y' ! i = y ! i" if "i < length y" "i < n * q + 1 \<or> (n + 1) * q < i"
    using assign_slice_frame[OF s that(1)] that(2) by auto
qed

lemma solve_lin_loop_invariant:
  assumes "fold (\<lambda>n r. bind r (solve_lin_step leggauss solve F t q n)) ns (Inr y) = Inr y'"
    and "y \<noteq> []"
  shows "length y' = length y \<and> y' ! 0 = y ! 0"
  using assms
proof (induction ns arbitrary: y)
  case Nil
  then show ?case by simp
next
  case (Cons n ns)
  show ?case
  proof (cases "solve_lin_step leggauss solve F t q n y")
    case (Inl e)
    have "fold (\<lambda>n r. bind r (solve_lin_step leggauss solve F t q n)) ns (Inl e) = Inl e"
      by (induction ns) (simp_all add: bind_def)
    with Cons.prems Inl show ?thesis by (simp add: bind_def)
  next
    case (Inr y1)
    have fr: "length y1 = length y" "y1 ! 0 = y ! 0"
      using solve_lin_step_frame(1)[OF Inr] solve_lin_step_frame(2)[OF Inr, of 0] Cons.prems(2) by auto
    then have "y1 \<noteq> []" using Cons.prems(2) by auto
    with Cons.IH[of y1] Cons.prems(1) Inr fr show ?thesis by (simp add: bind_def)
  qed
qed

lemma solve_lin_result:
  assumes "solve_lin leggauss solve y0 F t q = Inr y"
  shows "length y = (length t - 1) * q + 1 \<and> y ! 0 = y0 \<and> t \<noteq> [] \<and> 1 \<le> q"
proof -
  have pos: "0 < (int (length t) - 1) * int q + 1" and q: "q \<noteq> 0"
    using assms by (auto simp: solve_lin_def Let_def split: if_splits)
  have t: "t \<noteq> []"
  proof
    assume "t = []"
    with pos have "0 < 1 - int q" by simp
    with q show False by simp
  qed
  have sz: "nat ((int (length t) - 1) * int q + 1) = (length t - 1) * q + 1"
    using t by (cases t) (simp_all add: nat_add_distrib nat_mult_distrib)
  have "fold (\<lambda>n r. bind r (solve_lin_step leggauss solve F t q n))
          [0..<nat (int (length t) - 1)] (Inr ((replicate ((length t - 1) * q + 1) 0)[0 := y0])) = Inr y"
    using assms pos q sz by (simp add: solve_lin_def Let_def split: if_splits)
  from solve_lin_loop_invariant[OF this] show ?thesis using t q by simp
qed

lemma traverse_pure: "traverse (\<lambda>x. Inr (f x)) xs = Inr (map f xs)"
  by (induction xs) (simp_all add: bind_def)

lemma local_matrix_eval:
  assumes "1 \<le> q"
  shows "local_matrix leggauss F a b q =
    Inr (map (\<lambda>j. map (\<lambda>i. GaussQuad_sum (fst (leggauss (5 * q))) (snd (leggauss (5 * q))) a b
           (\<lambda>x. TestLagr a b q j x * (dLagr a b q i x - F x * Lagr a b q i x))) [0..<q + 1]) [0..<q])"
proof -
  have "GaussQuad leggauss a b (5 * q) e =
     Inr (GaussQuad_sum (fst (leggauss (5 * q))) (snd (leggauss (5 * q))) a b e)" for e
    using assms by (simp add: GaussQuad_def split: prod.splits)
  then show ?thesis
    by (simp add: local_matrix_def traverse_pure)
qed

lemma bind_Inr: "bind (Inr v) f = f v"
  by (simp add: bind_def)

lemma bind_Inl: "bind (Inl e) f = Inl e"
  by (simp add: bind_def)

lemma fold_bind_Inl:
  "fold (\<lambda>n r. bind r (f n)) ns (Inl e) = Inl e"
  by (induction ns) (simp_all add: bind_Inl)

lemma solve_lin_step_cases:
  assumes "1 \<le> q" "\<And>A b s. solve A b = Inr s \<Longrightarrow> length s = length b"
    and "length y = N * q + 1" "n < N"
  shows "(\<exists>y'. solve_lin_step leggauss solve F t q n y = Inr y' \<and> length y' = N * q + 1)
       \<or> (\<exists>A b e. solve A b = Inl e \<and> solve_lin_step leggauss solve F t q n y = Inl e)"
proof -
  define a where "a = map (\<lambda>j. map (\<lambda>i. GaussQuad_sum (fst (leggauss (5 * q))) (snd (leggauss (5 * q))) (t ! n) (t ! (n + 1))
           (\<lambda>x. TestLagr (t ! n) (t ! (n + 1)) q j x * (dLagr (t ! n) (t ! (n + 1)) q i x - F x * Lagr (t ! n) (t ! (n + 1)) q i x))) [0..<q + 1]) [0..<q]"
  define A where "A = map (\<lambda>row. drop 1 (take (q + 1) row)) (take q a)"
  define b where "b = map (\<lambda>row. - (y ! (n * q)) * row ! 0) a"
  have step: "solve_lin_step leggauss solve F t q n y =
        bind (solve A b) (\<lambda>s. assign_slice y (n * q + 1) ((n + 1) * q + 1) s)"
    using local_matrix_eval [OF assms(1), of leggauss F "t ! n" "t ! (n + 1)"]
    by (simp add: solve_lin_step_def bind_def Let_def a_def A_def b_def)
  show ?thesis
  proof (cases "solve A b")
    case (Inl e)
    then show ?thesis using step by (auto simp: bind_def)
  next
    case (Inr s)
    have lb: "length b = q" by (simp add: b_def a_def)
    have ls: "length s = q" using assms(2) [OF Inr] lb by simp
    have "(n + 1) * q \<le> N * q" using assms(4) by (intro mult_le_mono1) simp
    then have hi: "(n + 1) * q + 1 \<le> length y" using assms(3) by simp
    have "assign_slice y (n * q + 1) ((n + 1) * q + 1) s =
          Inr (take (n * q + 1) y @ s @ drop ((n + 1) * q + 1) y)"
      using hi ls by (intro assign_slice_fits) simp_all
    then have res: "solve_lin_step leggauss solve F t q n y =
          Inr (take (n * q + 1) y @ s @ drop ((n + 1) * q + 1) y)"
      using step Inr by (simp add: bind_def)
    then have "length (take (n * q + 1) y @ s @ drop ((n + 1) * q + 1) y) = N * q + 1"
      using solve_lin_step_frame(1) [OF res] assms(3) by simp
    with res show ?thesis by blast
  qed
qed

lemma solve_lin_loop_cases:
  assumes "1 \<le> q" "\<And>A b s. solve A b = Inr s \<Longrightarrow> length s = length b"
    and "length y = N * q + 1" "\<And>n. n \<in> set ns \<Longrightarrow> n < N"
  shows "(\<exists>y'. fold (\<lambda>n r. bind r (solve_lin_step leggauss solve F t q n)) ns (Inr y) = Inr y')
       \<or> (\<exists>A b e. solve A b = Inl e
             \<and> fold (\<lambda>n r. bind r (solve_lin_step leggauss solve F t q n)) ns (Inr y) = Inl e)"
  using assms(3,4)
proof (induction ns arbitrary: y)
  case Nil
  then show ?case by simp
next
  case (Cons n ns)
  have n: "n < N" using Cons.prems(2) by simp
  from solve_lin_step_cases [OF assms(1,2) Cons.prems(1) n, where leggauss = leggauss and F = F and t = t]
  show ?case
  proof
    assume "\<exists>y'. solve_lin_step leggauss solve F t q n y = Inr y' \<and> length y' = N * q + 1"
    then obtain y' where y': "solve_lin_step leggauss solve F t q n y = Inr y'"
      "length y' = N * q + 1" by blast
    from Cons.IH [OF y'(2)] Cons.prems(2) y'(1) show ?thesis by (simp add: bind_def)
  next
    assume "\<exists>A b e. solve A b = Inl e \<and> solve_lin_step leggauss solve F t q n y = Inl e"
    then obtain A b e where e: "solve A b = Inl e"
      "solve_lin_step leggauss solve F t q n y = Inl e" by blast
    then have "fold (\<lambda>n r. bind r (solve_lin_step leggauss solve F t q n)) (n # ns) (Inr y) = Inl e"
      by (simp add: bind_Inr fold_bind_Inl)
    with e(1) show ?thesis by blast
  qed
qed

lemma solve_lin_cases:
  assumes "t \<noteq> []" "1 \<le> q" "\<And>A b s. solve A b = Inr s \<Longrightarrow> length s = length b"
  shows "(\<exists>y. solve_lin leggauss solve y0 F t q = Inr y)
       \<or> (\<exists>A b e. solve A b = Inl e \<and> solve_lin leggauss solve y0 F t q = Inl e)"
proof -
  have sz: "nat ((int (length t) - 1) * int q + 1) = (length t - 1) * q + 1"
    and pos: "0 < (int (length t) - 1) * int q + 1" and N: "nat (int (length t) - 1) = length t - 1"
    using assms(1) by (cases t; simp add: nat_add_distrib nat_mult_distrib)+
  have "solve_lin leggauss solve y0 F t q =
      fold (\<lambda>n r. bind r (solve_lin_step leggauss solve F t q n)) [0..<length t - 1]
        (Inr ((replicate ((length t - 1) * q + 1) 0)[0 := y0]))"
    using assms(2) sz pos N by (simp add: solve_lin_def Let_def)
  moreover have "length ((replicate ((length t - 1) * q + 1) (0::real))[0 := y0]) = (length t - 1) * q + 1"
    by simp
  ultimately show ?thesis
    using solve_lin_loop_cases [OF assms(2,3), where y = "(replicate ((length t - 1) * q + 1) 0)[0 := y0]"
        and N = "length t - 1" and ns = "[0..<length t - 1]" and leggauss = leggauss and F = F and t = t]
    by simp
qed

text \<open>
  A run of the solver on concrete data: the mesh \<open>[0, 1]\<close>, degree 1, \<open>F = 0\<close> and the
  initial value 3. The local matrix is \<open>[[-1, 1]]\<close>, the system is \<open>1 * s = 3\<close>, and
  the nodal vector is \<open>[3, 3]\<close>.
\<close>

lemma midpoint_rule_5:
  "midpoint_rule 5 = ([- 4 / 5, - 2 / 5, 0, 2 / 5, 4 / 5], [2 / 5, 2 / 5, 2 / 5, 2 / 5, 2 / 5])"
  by (simp add: midpoint_rule_def upt_rec numeral_eq_Suc)

lemma solve_lin_step_example:
  "solve_lin_step midpoint_rule diagonal_solve (\<lambda>x. 0) [0, 1] 1 0 [3, 0] = Inr [3, 3]"
  by (simp add: solve_lin_step_def local_matrix_def GaussQuad_def GaussQuad_sum_def
      midpoint_rule_5 diagonal_solve_def assign_slice_def TestLagr_def dLagr_def Lagr_def
      linspace_def bind_def Let_def upt_rec)

lemma solve_lin_example:
  "solve_lin midpoint_rule diagonal_solve 3 (\<lambda>x. 0) [0, 1] 1 = Inr [3, 3]"
  using solve_lin_step_example by (simp add: solve_lin_def bind_def Let_def eval_nat_numeral)

lemma diagonal_solve_shape:
  "diagonal_solve A b = Inr s \<Longrightarrow> length s = length b"
  by (auto simp: diagonal_solve_def split: if_splits)

text \<open>
  C7. Whenever \<^verbatim>\<open>solve_lin\<close> returns, the nodal vector has \<open>N*q + 1\<close> entries (\<open>N\<close> the
  number of subintervals) and its entry 0 is the initial value. One pass of the loop
  body for subinterval \<open>n\<close> keeps the length and changes no entry outside the indices
  \<open>n*q + 1, \<dots>, (n+1)*q\<close>, so entry 0 is written at initialisation only. For a
  strictly increasing, non-empty mesh and a positive degree, and a solver whose
  solutions have the shape of the right-hand side, \<^verbatim>\<open>solve_lin\<close> does return, unless
  the solver itself raises (a singular local system), and then that exception is the
  result.
\<close>

theorem solve_lin_nodal_vector:
  "(solve_lin leggauss solve y0 F t q = Inr y \<longrightarrow>
      length y = (length t - 1) * q + 1 \<and> y ! 0 = y0)
   \<and> (solve_lin_step leggauss solve F t q n y1 = Inr y2 \<longrightarrow>
        length y2 = length y1
        \<and> (\<forall>i<length y1. i < n * q + 1 \<or> (n + 1) * q < i \<longrightarrow> y2 ! i = y1 ! i))
   \<and> (sorted_wrt (<) t \<and> t \<noteq> [] \<and> 1 \<le> q
        \<and> (\<forall>A b s. solve A b = Inr s \<longrightarrow> length s = length b) \<longrightarrow>
        (\<exists>y. solve_lin leggauss solve y0 F t q = Inr y)
        \<or> (\<exists>A b e. solve A b = Inl e \<and> solve_lin leggauss solve y0 F t q = Inl e))"
proof (intro conjI impI)
  assume "solve_lin leggauss solve y0 F t q = Inr y"
  from solve_lin_result [OF this]
  show "length y = (length t - 1) * q + 1" "y ! 0 = y0" by simp_all
next
  assume "solve_lin_step leggauss solve F t q n y1 = Inr y2"
  from solve_lin_step_frame [OF this]
  show "length y2 = length y1"
    "\<forall>i<length y1. i < n * q + 1 \<or> (n + 1) * q < i \<longrightarrow> y2 ! i = y1 ! i" by simp_all
next
  assume "sorted_wrt (<) t \<and> t \<noteq> [] \<and> 1 \<le> q
        \<and> (\<forall>A b s. solve A b = Inr s \<longrightarrow> length s = length b)"
  then show "(\<exists>y. solve_lin leggauss solve y0 F t q = Inr y)
        \<or> (\<exists>A b e. solve A b = Inl e \<and> solve_lin leggauss solve y0 F t q = Inl e)"
    by (intro solve_lin_cases) auto
qed

theorem solve_lin_nodal_vector_witness:
  "solve_lin midpoint_rule diagonal_solve 3 (\<lambda>x. 0) [0, 1] 1 = Inr [3, 3]
   \<and> length [3, 3 :: real] = (length [0, 1 :: real] - 1) * 1 + 1 \<and> [3, 3 :: real] ! 0 = 3
   \<and> solve_lin_step midpoint_rule diagonal_solve (\<lambda>x. 0) [0, 1] 1 0 [3, 0] = Inr [3, 3]
   \<and> length [3, 3 :: real] = length [3, 0 :: real] \<and> [3, 3 :: real] ! 0 = [3, 0] ! 0
   \<and> sorted_wrt (<) [0, 1 :: real] \<and> [0, 1 :: real] \<noteq> [] \<and> (1 :: nat) \<le> 1
   \<and> (\<forall>A b. case diagonal_solve A b of Inl e \<Rightarrow> True | Inr s \<Rightarrow> length s = length b)
   \<and> (\<exists>y. solve_lin midpoint_rule diagonal_solve 3 (\<lambda>x. 0) [0, 1] 1 = Inr y)"
  using solve_lin_nodal_vector [of midpoint_rule diagonal_solve 3 "\<lambda>x. 0" "[0, 1]" 1 "[3, 3]" 0 "[3, 0]" "[3, 3]"]
    solve_lin_example solve_lin_step_example diagonal_solve_shape
  by (auto split: sum.splits)

section \<open>The loops of the basis functions as products and sums\<close>

lemma fold_cond_mult:
  "fold (\<lambda>k v. if P k then v * f k else v) ks (v0 :: real) = v0 * prod_list (map f (filter P ks))"
  by (induction ks arbitrary: v0) (simp_all add: mult.assoc)

lemma fold_cond_add:
  "fold (\<lambda>k v. if P k then v + f k else v) ks (v0 :: real) = v0 + sum_list (map f (filter P ks))"
  by (induction ks arbitrary: v0) (simp_all add: add.assoc)

lemma prod_list_filter_upt:
  "prod_list (map f (filter P [0..<n])) = (\<Prod>k\<in>{k. k < n \<and> P k}. (f k :: real))"
proof -
  have s: "set (filter P [0..<n]) = {k. k < n \<and> P k}" by auto
  show ?thesis
    using prod.distinct_set_conv_list [of "filter P [0..<n]" f] s by simp
qed

lemma sum_list_filter_upt:
  "sum_list (map f (filter P [0..<n])) = (\<Sum>k\<in>{k. k < n \<and> P k}. (f k :: real))"
proof -
  have s: "set (filter P [0..<n]) = {k. k < n \<and> P k}" by auto
  show ?thesis
    using sum.distinct_set_conv_list [of "filter P [0..<n]" f] s by simp
qed

lemma linspace_nth:
  assumes "k < n"
  shows "linspace a b n ! k = equispaced a b (n - 1) k"
proof (cases "n = 1")
  case True
  with assms show ?thesis by (simp add: linspace_def equispaced_def)
next
  case False
  with assms show ?thesis by (simp add: linspace_def equispaced_def)
qed

lemma Lagr_lagrange:
  assumes "j \<le> q"
  shows "Lagr a b q j z = lagrange (equispaced a b q) (q + 1) j z"
proof -
  let ?I = "linspace a b (q + 1)"
  have "Lagr a b q j z = (\<Prod>k\<in>{k. k < q + 1 \<and> k \<noteq> j}. (z - ?I ! k) / (?I ! j - ?I ! k))"
    unfolding Lagr_def Let_def by (simp only: fold_cond_mult prod_list_filter_upt mult_1)
  also have "\<dots> = (\<Prod>k\<in>{k. k < q + 1 \<and> k \<noteq> j}. (z - equispaced a b q k) / (equispaced a b q j - equispaced a b q k))"
    using assms by (intro prod.cong) (simp_all add: linspace_nth)
  also have "{k. k < q + 1 \<and> k \<noteq> j} = {..<q + 1} - {j}" by auto
  finally show ?thesis by (simp add: lagrange_def)
qed

lemma TestLagr_lagrange:
  assumes "j < q"
  shows "TestLagr a b q j z = lagrange (equispaced a b (q - 1)) q j z"
proof (cases "q > 1")
  case True
  let ?I = "linspace a b q"
  have "TestLagr a b q j z = (\<Prod>k\<in>{k. k < q \<and> k \<noteq> j}. (z - ?I ! k) / (?I ! j - ?I ! k))"
    unfolding TestLagr_def Let_def using True
    by (simp only: fold_cond_mult prod_list_filter_upt mult_1 if_True)
  also have "\<dots> = (\<Prod>k\<in>{k. k < q \<and> k \<noteq> j}. (z - equispaced a b (q - 1) k) / (equispaced a b (q - 1) j - equispaced a b (q - 1) k))"
    using assms by (intro prod.cong) (simp_all add: linspace_nth)
  also have "{k. k < q \<and> k \<noteq> j} = {..<q} - {j}" by auto
  finally show ?thesis by (simp add: lagrange_def)
next
  case False
  with assms have "q = 1" "j = 0" by auto
  then show ?thesis by (simp add: TestLagr_def lagrange_def)
qed

lemma dLagr_lagrange_deriv:
  assumes "j \<le> q"
  shows "dLagr a b q j z = lagrange_deriv (equispaced a b q) (q + 1) j z"
proof -
  let ?I = "linspace a b (q + 1)"
  let ?x = "equispaced a b q"
  have inner: "fold (\<lambda>k v. if k \<noteq> j \<and> k \<noteq> m then v * ((z - ?I ! k) / (?I ! j - ?I ! k)) else v) [0..<q + 1] 1
      = (\<Prod>k\<in>{..<q + 1} - {j, m}. (z - ?x k) / (?x j - ?x k))" for m
  proof -
    have "fold (\<lambda>k v. if k \<noteq> j \<and> k \<noteq> m then v * ((z - ?I ! k) / (?I ! j - ?I ! k)) else v) [0..<q + 1] 1
        = (\<Prod>k\<in>{k. k < q + 1 \<and> (k \<noteq> j \<and> k \<noteq> m)}. (z - ?I ! k) / (?I ! j - ?I ! k))"
      by (simp only: fold_cond_mult prod_list_filter_upt mult_1)
    also have "\<dots> = (\<Prod>k\<in>{k. k < q + 1 \<and> (k \<noteq> j \<and> k \<noteq> m)}. (z - ?x k) / (?x j - ?x k))"
      using assms by (intro prod.cong) (simp_all add: linspace_nth)
    also have "{k. k < q + 1 \<and> (k \<noteq> j \<and> k \<noteq> m)} = {..<q + 1} - {j, m}" by auto
    finally show ?thesis .
  qed
  have "dLagr a b q j z =
      fold (\<lambda>m d. if m \<noteq> j then d + 1 / (?I ! j - ?I ! m) * (\<Prod>k\<in>{..<q + 1} - {j, m}. (z - ?x k) / (?x j - ?x k)) else d)
        [0..<q + 1] 0"
    unfolding dLagr_def Let_def inner ..
  also have "\<dots> = (\<Sum>m\<in>{m. m < q + 1 \<and> m \<noteq> j}. 1 / (?I ! j - ?I ! m) * (\<Prod>k\<in>{..<q + 1} - {j, m}. (z - ?x k) / (?x j - ?x k)))"
    by (simp only: fold_cond_add sum_list_filter_upt add_0)
  also have "\<dots> = (\<Sum>m\<in>{m. m < q + 1 \<and> m \<noteq> j}. 1 / (?x j - ?x m) * (\<Prod>k\<in>{..<q + 1} - {j, m}. (z - ?x k) / (?x j - ?x k)))"
    using assms by (intro sum.cong) (simp_all add: linspace_nth)
  also have "{m. m < q + 1 \<and> m \<noteq> j} = {..<q + 1} - {j}" by auto
  finally show ?thesis by (simp add: lagrange_deriv_def)
qed

subsection \<open>The cardinal property\<close>

lemma lagrange_at_node:
  assumes "inj_on x {..<n}" "j < n" "m < n"
  shows "lagrange x n j (x m) = (if m = j then 1 else 0)"
proof (cases "m = j")
  case True
  have "(x j - x k) / (x j - x k) = 1" if "k \<in> {..<n} - {j}" for k
  proof -
    have "x j \<noteq> x k" using assms(1,2) that by (auto simp: inj_on_def)
    then show ?thesis by simp
  qed
  then show ?thesis using True by (simp add: lagrange_def)
next
  case False
  have "(\<Prod>k\<in>{..<n} - {j}. (x m - x k) / (x j - x k)) = 0"
    by (rule prod_zero) (use assms False in auto)
  then show ?thesis using False by (simp add: lagrange_def)
qed

lemma equispaced_inj:
  assumes "a \<noteq> b" "n \<noteq> 0"
  shows "inj_on (equispaced a b n) S"
  using assms by (auto simp: inj_on_def equispaced_def)

lemma equispaced_inj':
  assumes "a \<noteq> b"
  shows "inj_on (equispaced a b n) {..<n + 1}"
proof (cases "n = 0")
  case True
  then show ?thesis by (simp add: inj_on_def)
next
  case False
  then show ?thesis using equispaced_inj[OF assms] by blast
qed

lemma equispaced_0: "equispaced a b n 0 = a"
  by (simp add: equispaced_def)

lemma Lagr_left_node:
  assumes "a \<noteq> b" "j \<le> q"
  shows "Lagr a b q j a = (if j = 0 then 1 else 0)"
  using lagrange_at_node[OF equispaced_inj'[OF assms(1), of q], of j 0] assms(2)
  by (simp add: Lagr_lagrange equispaced_0)


section \<open>Evaluation at the mesh nodes\<close>

subsection \<open>Evaluation at the nodes\<close>

lemma basis_sum_fold:
  assumes "\<And>j. j \<in> set js \<Longrightarrow> q * i + j < length Y"
  shows "fold (\<lambda>j r. bind r (\<lambda>acc.
             bind (py_index Y (int (q * i + j))) (\<lambda>yv.
               Inr (acc + yv * basis (t ! i) (t ! (i + 1)) q j x)))) js (Inr ans)
       = Inr (ans + sum_list (map (\<lambda>j. Y ! (q * i + j) * basis (t ! i) (t ! (i + 1)) q j x) js))"
  using assms
proof (induction js arbitrary: ans)
  case Nil
  then show ?case by simp
next
  case (Cons j js)
  have "py_index Y (int (q * i + j)) = Inr (Y ! (q * i + j))"
    using Cons.prems by (intro py_index_nat) simp
  then show ?case using Cons by (simp add: bind_def add.assoc)
qed

lemma basis_sum_eval:
  assumes "q * i + q < length Y"
  shows "basis_sum basis Y t q x i ans =
     Inr (ans + (\<Sum>j\<le>q. Y ! (q * i + j) * basis (t ! i) (t ! (i + 1)) q j x))"
proof -
  have "basis_sum basis Y t q x i ans =
     Inr (ans + sum_list (map (\<lambda>j. Y ! (q * i + j) * basis (t ! i) (t ! (i + 1)) q j x) [0..<q + 1]))"
    unfolding basis_sum_def using assms by (intro basis_sum_fold) auto
  also have "sum_list (map (\<lambda>j. Y ! (q * i + j) * basis (t ! i) (t ! (i + 1)) q j x) [0..<q + 1])
      = (\<Sum>j\<le>q. Y ! (q * i + j) * basis (t ! i) (t ! (i + 1)) q j x)"
    by (simp add: interv_sum_list_conv_sum_set_nat atLeast0AtMost lessThan_Suc_atMost atLeast0LessThan del: upt_Suc)
  finally show ?thesis .
qed

lemma piecewise_loop_inside:
  assumes "sorted_wrt (<) t" "i + 1 < length t" "t ! i \<le> x" "x < t ! (i + 1)"
    and "q * i + q < length Y"
  shows "piecewise_loop basis Y t q x =
     Inr (\<Sum>j\<le>q. Y ! (q * i + j) * basis (t ! i) (t ! (i + 1)) q j x)"
proof -
  let ?step = "\<lambda>i r. bind r (\<lambda>ans.
             if t ! i \<le> x \<and> x < t ! (i + 1) then basis_sum basis Y t q x i ans
             else Inr ans)"
  have before: "\<not> (t ! k \<le> x \<and> x < t ! (k + 1))" if "k \<in> set [0..<i]" for k
  proof -
    have "k + 1 \<le> i" using that by simp
    then have "t ! (k + 1) \<le> t ! i"
      using assms(1,2) by (cases "k + 1 = i") (auto simp: sorted_wrt_iff_nth_less less_imp_le)
    with assms(3) show ?thesis by simp
  qed
  have after: "\<not> (t ! k \<le> x \<and> x < t ! (k + 1))" if "k \<in> set [Suc i..<length t - 1]" for k
  proof -
    have "i + 1 \<le> k" "k < length t" using that by auto
    then have "t ! (i + 1) \<le> t ! k"
      using assms(1) by (cases "i + 1 = k") (auto simp: sorted_wrt_iff_nth_less less_imp_le)
    with assms(4) show ?thesis by simp
  qed
  have "i < length t - 1" using assms(2) by simp
  then have rs: "[0..<length t - 1] = [0..<i] @ i # [Suc i..<length t - 1]"
    by (rule range_split)
  have "piecewise_loop basis Y t q x = fold ?step ([0..<i] @ i # [Suc i..<length t - 1]) (Inr 0)"
    unfolding piecewise_loop_def by (subst rs) (rule refl)
  also have "\<dots> = fold ?step [Suc i..<length t - 1] (?step i (fold ?step [0..<i] (Inr 0)))"
    by simp
  also have "fold ?step [0..<i] (Inr 0) = Inr 0"
    using before by (rule piecewise_loop_skip)
  also have "?step i (Inr 0) = Inr (\<Sum>j\<le>q. Y ! (q * i + j) * basis (t ! i) (t ! (i + 1)) q j x)"
    using assms(3,4) basis_sum_eval[OF assms(5)] by (simp add: bind_def)
  also have "fold ?step [Suc i..<length t - 1] (Inr (\<Sum>j\<le>q. Y ! (q * i + j) * basis (t ! i) (t ! (i + 1)) q j x))
      = Inr (\<Sum>j\<le>q. Y ! (q * i + j) * basis (t ! i) (t ! (i + 1)) q j x)"
    using after by (rule piecewise_loop_skip)
  finally show ?thesis .
qed

lemma evalfunc_at_node:
  assumes "sorted_wrt (<) t" "length Y = (length t - 1) * q + 1" "i < length t"
  shows "evalfunc Y t q (t ! i) = Inr (Y ! (q * i))"
proof (cases "i = length t - 1")
  case True
  have "t \<noteq> []" "Y \<noteq> []" using assms by auto
  then show ?thesis
    using True assms(2) py_index_last[of t] py_index_last[of Y]
    by (simp add: evalfunc_def bind_def mult.commute)
next
  case False
  then have i: "i + 1 < length t" using assms(3) by simp
  have lt: "t ! i < t ! (i + 1)"
    using sorted_wrt_nth_less [OF assms(1), of i "i + 1"] i by simp
  have "t ! i < t ! (length t - 1)"
    using sorted_wrt_nth_less [OF assms(1), of i "length t - 1"] i False by simp
  then have ne: "t ! i \<noteq> t ! (length t - 1)" by simp
  have "q * i + q = q * (i + 1)" by simp
  also have "\<dots> \<le> q * (length t - 1)" using i by (intro mult_le_mono2) simp
  finally have b: "q * i + q < length Y" using assms(2) by (simp add: mult.commute)
  have "(\<Sum>j\<le>q. Y ! (q * i + j) * Lagr (t ! i) (t ! (i + 1)) q j (t ! i))
      = (\<Sum>j\<le>q. if j = 0 then Y ! (q * i) else 0)"
    using lt by (intro sum.cong) (simp_all add: Lagr_left_node)
  also have "\<dots> = Y ! (q * i)" by simp
  finally have "piecewise_loop Lagr Y t q (t ! i) = Inr (Y ! (q * i))"
    using piecewise_loop_inside[OF assms(1) i _ lt b, of Lagr] by simp
  moreover have "py_index t (- 1) = Inr (t ! (length t - 1))"
    using i by (intro py_index_last) auto
  ultimately show ?thesis
    using ne by (simp add: evalfunc_def bind_def)
qed

text \<open>
  C8. For every nodal vector \<open>Y\<close> that \<^verbatim>\<open>solve_lin\<close> returns on a strictly increasing
  mesh \<open>t\<close> with degree \<open>q\<close>, \<^verbatim>\<open>evalfunc\<close> at each mesh node \<open>t[i]\<close> returns the
  stored value \<open>Y[q*i]\<close> exactly; at the final node this is the last entry of \<open>Y\<close>,
  returned by the branch \<open>x == t[-1]\<close> without any basis evaluation.
\<close>

theorem evalfunc_round_trip:
  assumes "solve_lin leggauss solve y0 F t q = Inr Y" "sorted_wrt (<) t" "i < length t"
  shows "evalfunc Y t q (t ! i) = Inr (Y ! (q * i))
       \<and> evalfunc Y t q (t ! (length t - 1)) = py_index Y (- 1)"
proof -
  have len: "length Y = (length t - 1) * q + 1"
    using solve_lin_result [OF assms(1)] by simp
  have "t \<noteq> []" using assms(3) by auto
  then have "evalfunc Y t q (t ! (length t - 1)) = py_index Y (- 1)"
    by (simp add: evalfunc_def py_index_last bind_Inr)
  with evalfunc_at_node [OF assms(2) len assms(3)] show ?thesis by simp
qed

theorem evalfunc_round_trip_witness:
  "solve_lin midpoint_rule diagonal_solve 3 (\<lambda>x. 0) [0, 1] 1 = Inr [3, 3]
   \<and> sorted_wrt (<) [0, 1 :: real] \<and> (1 :: nat) < length [0, 1 :: real]
   \<and> evalfunc [3, 3] [0, 1] 1 ([0, 1] ! 1) = Inr ([3, 3] ! (1 * 1))
   \<and> evalfunc [3, 3] [0, 1] 1 ([0, 1] ! (length [0, 1 :: real] - 1)) = py_index [3, 3] (- 1)"
  using evalfunc_round_trip [of midpoint_rule diagonal_solve 3 "\<lambda>x. 0" "[0, 1]" 1 "[3, 3]" 1]
    solve_lin_example
  by (auto simp: py_index_def)


section \<open>Exactness of the quadrature on an interval\<close>

lemma fold_add_sum:
  "fold (\<lambda>k ans. ans + f k) [0..<n] (a :: real) = a + (\<Sum>k<n. f k)"
  by (induction n arbitrary: a) (simp_all add: add.assoc)

lemma GaussQuad_sum_eq:
  "GaussQuad_sum p w a b f =
     (\<Sum>k<length p. (b - a) / 2 * w ! k * f ((b - a) / 2 * p ! k + (a + b) / 2))"
proof -
  have "fold (\<lambda>k ans. ans + (b - a) / 2 * w ! k * f (map (\<lambda>pk. (b - a) / 2 * pk + (a + b) / 2) p ! k))
          [0..<length p] 0
      = (\<Sum>k<length p. (b - a) / 2 * w ! k * f (map (\<lambda>pk. (b - a) / 2 * pk + (a + b) / 2) p ! k))"
    by (simp add: fold_add_sum)
  also have "\<dots> = (\<Sum>k<length p. (b - a) / 2 * w ! k * f ((b - a) / 2 * p ! k + (a + b) / 2))"
    by (intro sum.cong) simp_all
  finally show ?thesis by (simp add: GaussQuad_sum_def Let_def)
qed

lemma power_diff_binomial:
  fixes C D :: real
  shows "(D + C) ^ Suc m - (D - C) ^ Suc m
       = (\<Sum>j\<le>m. real (Suc m choose Suc j) * C ^ Suc j * D ^ (m - j) * (1 - (- 1) ^ Suc j))"
proof -
  have 1: "(D + C) ^ Suc m = (\<Sum>i\<le>Suc m. real (Suc m choose i) * C ^ i * D ^ (Suc m - i))"
    using binomial_ring [of C D "Suc m"] by (simp add: add.commute)
  have 2: "(D - C) ^ Suc m = (\<Sum>i\<le>Suc m. real (Suc m choose i) * (- C) ^ i * D ^ (Suc m - i))"
    using binomial_ring [of "- C" D "Suc m"] by (simp add: add.commute)
  have "(D + C) ^ Suc m - (D - C) ^ Suc m
      = (\<Sum>i\<le>Suc m. real (Suc m choose i) * C ^ i * D ^ (Suc m - i) * (1 - (- 1) ^ i))"
    unfolding 1 2 sum_subtractf [symmetric]
    by (intro sum.cong refl) (simp add: algebra_simps power_minus [of C])
  also have "\<dots> = (\<Sum>j\<le>m. real (Suc m choose Suc j) * C ^ Suc j * D ^ (m - j) * (1 - (- 1) ^ Suc j))"
    by (subst sum.atMost_Suc_shift) simp
  finally show ?thesis .
qed

lemma moment_affine:
  fixes C D :: real
  assumes "\<And>j. j \<le> m \<Longrightarrow> (\<Sum>k<n. w k * p k ^ j) = (1 - (- 1) ^ Suc j) / real (Suc j)"
  shows "(\<Sum>k<n. C * w k * (C * p k + D) ^ m) = ((D + C) ^ Suc m - (D - C) ^ Suc m) / real (Suc m)"
proof -
  have "(\<Sum>k<n. C * w k * (C * p k + D) ^ m)
      = (\<Sum>k<n. \<Sum>j\<le>m. C * w k * (real (m choose j) * (C * p k) ^ j * D ^ (m - j)))"
    by (simp add: binomial_ring sum_distrib_left)
  also have "\<dots> = (\<Sum>j\<le>m. \<Sum>k<n. C * w k * (real (m choose j) * (C * p k) ^ j * D ^ (m - j)))"
    by (rule sum.swap)
  also have "\<dots> = (\<Sum>j\<le>m. real (m choose j) * C ^ Suc j * D ^ (m - j) * (\<Sum>k<n. w k * p k ^ j))"
    by (intro sum.cong refl) (simp add: sum_distrib_left power_mult_distrib algebra_simps)
  also have "\<dots> = (\<Sum>j\<le>m. real (m choose j) * C ^ Suc j * D ^ (m - j) * ((1 - (- 1) ^ Suc j) / real (Suc j)))"
    by (intro sum.cong refl) (simp add: assms)
  also have "\<dots> = (\<Sum>j\<le>m. real (Suc m choose Suc j) * C ^ Suc j * D ^ (m - j) * (1 - (- 1) ^ Suc j) / real (Suc m))"
  proof (intro sum.cong refl)
    fix j assume "j \<in> {..m}"
    have "real (Suc m) * real (m choose j) = real (Suc m choose Suc j) * real (Suc j)"
      using Suc_times_binomial_eq [of m j] by (metis of_nat_mult)
    then have "real (m choose j) / real (Suc j) = real (Suc m choose Suc j) / real (Suc m)"
      by (simp add: field_simps)
    then have "real (m choose j) * (C ^ Suc j * D ^ (m - j) * (1 - (- 1) ^ Suc j)) / real (Suc j)
        = real (Suc m choose Suc j) * (C ^ Suc j * D ^ (m - j) * (1 - (- 1) ^ Suc j)) / real (Suc m)"
      by (metis times_divide_eq_left)
    then show "real (m choose j) * C ^ Suc j * D ^ (m - j) * ((1 - (- 1) ^ Suc j) / real (Suc j))
        = real (Suc m choose Suc j) * C ^ Suc j * D ^ (m - j) * (1 - (- 1) ^ Suc j) / real (Suc m)"
      by (simp add: mult.assoc)
  qed
  also have "\<dots> = ((D + C) ^ Suc m - (D - C) ^ Suc m) / real (Suc m)"
    by (simp only: power_diff_binomial sum_divide_distrib)
  finally show ?thesis .
qed

lemma GaussQuad_sum_monomial:
  assumes "\<And>j. j \<le> m \<Longrightarrow> (\<Sum>k<length p. w ! k * p ! k ^ j) = (1 - (- 1) ^ Suc j) / real (Suc j)"
  shows "GaussQuad_sum p w a b (\<lambda>x. x ^ m) = (b ^ Suc m - a ^ Suc m) / real (Suc m)"
proof -
  have "(a + b) / 2 + (b - a) / 2 = b" "(a + b) / 2 - (b - a) / 2 = a"
    by (simp_all add: field_simps)
  then show ?thesis
    using moment_affine [where m = m and n = "length p" and w = "\<lambda>k. w ! k" and p = "\<lambda>k. p ! k"
        and C = "(b - a) / 2" and D = "(a + b) / 2"] assms
    by (simp add: GaussQuad_sum_eq)
qed

lemma GaussQuad_sum_polynomial:
  assumes "\<And>j. j \<le> d \<Longrightarrow> (\<Sum>k<length p. w ! k * p ! k ^ j) = (1 - (- 1) ^ Suc j) / real (Suc j)"
  shows "GaussQuad_sum p w a b (\<lambda>x. \<Sum>m\<le>d. c m * x ^ m)
       = (\<Sum>m\<le>d. c m * b ^ Suc m / real (Suc m)) - (\<Sum>m\<le>d. c m * a ^ Suc m / real (Suc m))"
proof -
  let ?C = "(b - a) / 2" and ?D = "(a + b) / 2"
  have "GaussQuad_sum p w a b (\<lambda>x. \<Sum>m\<le>d. c m * x ^ m)
      = (\<Sum>k<length p. \<Sum>m\<le>d. c m * (?C * w ! k * (?C * p ! k + ?D) ^ m))"
    unfolding GaussQuad_sum_eq
    by (intro sum.cong refl) (simp add: sum_distrib_left algebra_simps)
  also have "\<dots> = (\<Sum>m\<le>d. \<Sum>k<length p. c m * (?C * w ! k * (?C * p ! k + ?D) ^ m))"
    by (rule sum.swap)
  also have "\<dots> = (\<Sum>m\<le>d. c m * GaussQuad_sum p w a b (\<lambda>x. x ^ m))"
    unfolding GaussQuad_sum_eq by (simp add: sum_distrib_left)
  also have "\<dots> = (\<Sum>m\<le>d. c m * ((b ^ Suc m - a ^ Suc m) / real (Suc m)))"
    using assms by (intro sum.cong refl) (simp add: GaussQuad_sum_monomial)
  also have "\<dots> = (\<Sum>m\<le>d. c m * b ^ Suc m / real (Suc m)) - (\<Sum>m\<le>d. c m * a ^ Suc m / real (Suc m))"
    by (simp add: sum_subtractf [symmetric] algebra_simps diff_divide_distrib)
  finally show ?thesis .
qed

lemma polynomial_antiderivative:
  "((\<lambda>x. \<Sum>m\<le>d. c m * x ^ Suc m / real (Suc m)) has_field_derivative (\<Sum>m\<le>d. c m * x ^ m)) (at x)"
proof (rule DERIV_sum)
  fix m
  have "((\<lambda>x. c m * x ^ Suc m / real (Suc m)) has_field_derivative
          c m * (real (Suc m) * x ^ (Suc m - Suc 0)) / real (Suc m)) (at x)"
    by (intro DERIV_cdivide DERIV_cmult DERIV_pow)
  moreover have "c m * (real (Suc m) * x ^ (Suc m - Suc 0)) / real (Suc m) = c m * x ^ m"
    by (simp del: of_nat_Suc)
  ultimately show "((\<lambda>x. c m * x ^ Suc m / real (Suc m)) has_field_derivative c m * x ^ m) (at x)"
    by simp
qed

text \<open>
  C9. Let the rule that \<^verbatim>\<open>leggauss(order)\<close> returns be exact on \<open>[-1,1]\<close> for the
  monomials of degree at most \<open>2*order - 1\<close> (the defining property of the
  Gauss--Legendre rule: \<open>\<Sum>k. w[k] * p[k]^j = (1 - (-1)^(j+1)) / (j+1)\<close>). Then for every
  interval \<open>[left, right]\<close>, every \<open>order \<ge> 1\<close> and every polynomial
  \<open>f(x) = \<Sum>m\<le>d. c m * x^m\<close> of degree \<open>d \<le> 2*order - 1\<close>, \<^verbatim>\<open>GaussQuad\<close> returns
  \<open>P(right) - P(left)\<close>, where \<open>P(x) = \<Sum>m\<le>d. c m * x^(m+1) / (m+1)\<close> is an
  antiderivative of \<open>f\<close>: the exact integral of \<open>f\<close> over the interval.
\<close>

theorem GaussQuad_exact:
  assumes "1 \<le> order" "leggauss order = (p, w)" "d \<le> 2 * order - 1"
    and "\<forall>j \<le> 2 * order - 1. (\<Sum>k<length p. w ! k * p ! k ^ j) = (1 - (- 1) ^ Suc j) / real (Suc j)"
  shows "GaussQuad leggauss left right order (\<lambda>x. \<Sum>m\<le>d. c m * x ^ m)
           = Inr ((\<Sum>m\<le>d. c m * right ^ Suc m / real (Suc m)) - (\<Sum>m\<le>d. c m * left ^ Suc m / real (Suc m)))
       \<and> (\<forall>x. ((\<lambda>x. \<Sum>m\<le>d. c m * x ^ Suc m / real (Suc m)) has_field_derivative (\<Sum>m\<le>d. c m * x ^ m)) (at x))"
proof -
  have "(\<Sum>k<length p. w ! k * p ! k ^ j) = (1 - (- 1) ^ Suc j) / real (Suc j)" if "j \<le> d" for j
    using assms(3,4) that by simp
  from GaussQuad_sum_polynomial [where d = d and p = p and w = w and c = c and a = left and b = right, OF this]
  show ?thesis
    using assms(1,2) polynomial_antiderivative [where c = c and d = d] by (simp add: GaussQuad_def)
qed

theorem GaussQuad_exact_witness:
  "(1 :: nat) \<le> 2 \<and> (\<lambda>n. ([- (1 / sqrt 3), 1 / sqrt 3], [1, 1])) (2 :: nat) = ([- (1 / sqrt 3), 1 / sqrt 3], [1, 1 :: real])
   \<and> (3 :: nat) \<le> 2 * 2 - 1
   \<and> GaussQuad (\<lambda>n. ([- (1 / sqrt 3), 1 / sqrt 3], [1, 1])) 0 2 2 (\<lambda>x. \<Sum>m\<le>3. real (Suc m) * x ^ m)
       = Inr ((\<Sum>m\<le>3. real (Suc m) * 2 ^ Suc m / real (Suc m)) - (\<Sum>m\<le>3. real (Suc m) * 0 ^ Suc m / real (Suc m)))
   \<and> (\<Sum>m\<le>3. real (Suc m) * 2 ^ Suc m / real (Suc m)) - (\<Sum>m\<le>3. real (Suc m) * 0 ^ Suc m / real (Suc m)) = (30 :: real)"
proof -
  have s: "(1 / sqrt 3) ^ 2 = (1 / 3 :: real)" by (simp add: power_divide)
  have m: "\<forall>j \<le> 2 * 2 - 1. (\<Sum>k<length [- (1 / sqrt 3), 1 / sqrt 3]. [1, 1 :: real] ! k * [- (1 / sqrt 3), 1 / sqrt 3] ! k ^ j)
            = (1 - (- 1) ^ Suc j) / real (Suc j)"
  proof (intro allI impI)
    fix j :: nat assume "j \<le> 2 * 2 - 1"
    then consider "j = 0" | "j = 1" | "j = 2" | "j = 3" by force
    then show "(\<Sum>k<length [- (1 / sqrt 3), 1 / sqrt 3]. [1, 1 :: real] ! k * [- (1 / sqrt 3), 1 / sqrt 3] ! k ^ j)
            = (1 - (- 1) ^ Suc j) / real (Suc j)"
      using s by cases (simp_all add: lessThan_Suc eval_nat_numeral)
  qed
  show ?thesis
    using GaussQuad_exact [where order = 2 and leggauss = "\<lambda>n. ([- (1 / sqrt 3), 1 / sqrt 3], [1, 1])"
        and p = "[- (1 / sqrt 3), 1 / sqrt 3]" and w = "[1, 1]" and d = 3
        and c = "\<lambda>m. real (Suc m)" and left = 0 and right = 2] m
    by (simp add: atMost_Suc numeral_3_eq_3 del: of_nat_Suc)
qed


section \<open>Polynomials and Lagrange interpolation\<close>

subsection \<open>Polynomial functions of bounded degree\<close>

lemma poly_uptoI: "(\<And>z. f z = (\<Sum>i\<le>n. c i * z ^ i)) \<Longrightarrow> poly_upto n f"
  unfolding poly_upto_def by blast

lemma poly_upto_const: "poly_upto n (\<lambda>z. a)"
proof (rule poly_uptoI)
  fix z :: real
  have "(\<Sum>i\<le>n. (if i = 0 then a else 0) * z ^ i) = (\<Sum>i\<le>n. if i = 0 then a else 0)"
    by (intro sum.cong refl) simp
  then show "a = (\<Sum>i\<le>n. (if i = 0 then a else 0) * z ^ i)" by simp
qed

lemma poly_upto_add:
  assumes "poly_upto n f" "poly_upto n g"
  shows "poly_upto n (\<lambda>z. f z + g z)"
proof -
  obtain c d where "\<And>z. f z = (\<Sum>i\<le>n. c i * z ^ i)" "\<And>z. g z = (\<Sum>i\<le>n. d i * z ^ i)"
    using assms unfolding poly_upto_def by blast
  then have "f z + g z = (\<Sum>i\<le>n. (c i + d i) * z ^ i)" for z
    by (simp add: sum.distrib distrib_right)
  then show ?thesis by (rule poly_uptoI)
qed

lemma poly_upto_cmult:
  assumes "poly_upto n f"
  shows "poly_upto n (\<lambda>z. a * f z)"
proof -
  obtain c where "\<And>z. f z = (\<Sum>i\<le>n. c i * z ^ i)"
    using assms unfolding poly_upto_def by blast
  then have "a * f z = (\<Sum>i\<le>n. (a * c i) * z ^ i)" for z
    by (simp add: sum_distrib_left mult.assoc)
  then show ?thesis by (rule poly_uptoI)
qed

lemma poly_upto_Suc:
  assumes "poly_upto n f"
  shows "poly_upto (Suc n) f"
proof -
  obtain c where c: "\<And>z. f z = (\<Sum>i\<le>n. c i * z ^ i)"
    using assms unfolding poly_upto_def by blast
  have "f z = (\<Sum>i\<le>Suc n. (if i \<le> n then c i else 0) * z ^ i)" for z
    by (simp add: c)
  then show ?thesis by (rule poly_uptoI)
qed

lemma poly_upto_mono:
  assumes "poly_upto n f" "n \<le> m"
  shows "poly_upto m f"
  using assms(2,1) by (induction rule: dec_induct) (simp_all add: poly_upto_Suc)

lemma poly_upto_shift:
  assumes "poly_upto n f"
  shows "poly_upto (Suc n) (\<lambda>z. z * f z)"
proof -
  obtain c where c: "\<And>z. f z = (\<Sum>i\<le>n. c i * z ^ i)"
    using assms unfolding poly_upto_def by blast
  have "z * f z = (\<Sum>i\<le>Suc n. (case i of 0 \<Rightarrow> 0 | Suc k \<Rightarrow> c k) * z ^ i)" for z
    by (subst sum.atMost_Suc_shift) (simp add: c sum_distrib_left mult_ac)
  then show ?thesis by (rule poly_uptoI)
qed

lemma poly_upto_linear_factor:
  assumes "poly_upto n f"
  shows "poly_upto (Suc n) (\<lambda>z. (z - a) / d * f z)"
proof -
  have "poly_upto (Suc n) (\<lambda>z. 1 / d * (z * f z) + (- a / d) * f z)"
    by (intro poly_upto_add poly_upto_cmult poly_upto_shift poly_upto_Suc assms)
  moreover have "1 / d * (z * f z) + (- a / d) * f z = (z - a) / d * f z" for z
    by (simp add: divide_inverse algebra_simps)
  ultimately show ?thesis by simp
qed

lemma poly_upto_sum:
  assumes "\<And>k. k \<in> S \<Longrightarrow> poly_upto n (f k)"
  shows "poly_upto n (\<lambda>z. \<Sum>k\<in>S. f k z)"
  using assms
proof (induction S rule: infinite_finite_induct)
  case (insert k S)
  then show ?case by (simp add: poly_upto_add)
qed (simp_all add: poly_upto_const)

lemma poly_upto_prod_linear:
  assumes "finite S"
  shows "poly_upto (card S) (\<lambda>z. \<Prod>k\<in>S. (z - a k) / d k)"
  using assms
proof (induction S rule: finite_induct)
  case empty
  then show ?case by (simp add: poly_upto_const)
next
  case (insert k S)
  have "poly_upto (Suc (card S)) (\<lambda>z. (z - a k) / d k * (\<Prod>k\<in>S. (z - a k) / d k))"
    by (rule poly_upto_linear_factor) (rule insert.IH)
  then show ?case using insert.hyps by simp
qed

lemma poly_upto_many_roots:
  assumes "poly_upto n f" "finite R" "n < card R" "\<And>r. r \<in> R \<Longrightarrow> f r = 0"
  shows "f z = 0"
proof -
  obtain c where c: "\<And>z. f z = (\<Sum>i\<le>n. c i * z ^ i)"
    using assms(1) unfolding poly_upto_def by blast
  have "c k = 0" if "k \<le> n" for k
  proof (rule ccontr)
    assume "c k \<noteq> 0"
    with polyfun_rootbound [of c k n] that
    have fin: "finite {z. (\<Sum>i\<le>n. c i * z ^ i) = 0}" and card: "card {z. (\<Sum>i\<le>n. c i * z ^ i) = 0} \<le> n"
      by simp_all
    have "R \<subseteq> {z. (\<Sum>i\<le>n. c i * z ^ i) = 0}" using assms(4) c by auto
    then have "card R \<le> card {z. (\<Sum>i\<le>n. c i * z ^ i) = 0}" using fin by (rule card_mono[rotated])
    with card assms(3) show False by simp
  qed
  then show ?thesis by (simp add: c)
qed

subsection \<open>Lagrange interpolation\<close>

lemma poly_upto_lagrange:
  assumes "j < n"
  shows "poly_upto (n - 1) (lagrange x n j)"
proof -
  have "card ({..<n} - {j}) = n - 1" using assms by simp
  then show ?thesis
    using poly_upto_prod_linear [of "{..<n} - {j}" x "\<lambda>k. x j - x k"]
    unfolding lagrange_def by simp
qed

lemma poly_upto_lagrange_deriv:
  assumes "j < n"
  shows "poly_upto (n - 2) (lagrange_deriv x n j)"
  unfolding lagrange_deriv_def
proof (intro poly_upto_sum poly_upto_cmult)
  fix m assume "m \<in> {..<n} - {j}"
  then have "card ({..<n} - {j, m}) = n - 2" using assms by (simp add: card_Diff_insert)
  then show "poly_upto (n - 2) (\<lambda>z. \<Prod>k\<in>{..<n} - {j, m}. (z - x k) / (x j - x k))"
    using poly_upto_prod_linear [of "{..<n} - {j, m}" x "\<lambda>k. x j - x k"] by simp
qed

lemma lagrange_has_derivative:
  "(lagrange x n j has_field_derivative lagrange_deriv x n j z) (at z)"
proof -
  have "((\<lambda>u. \<Prod>k\<in>{..<n} - {j}. (u - x k) / (x j - x k)) has_field_derivative
          (\<Sum>m\<in>{..<n} - {j}. 1 / (x j - x m) * (\<Prod>k\<in>{..<n} - {j} - {m}. (z - x k) / (x j - x k)))) (at z)"
  proof (rule has_field_derivative_prod)
    fix k
    show "((\<lambda>u. (u - x k) / (x j - x k)) has_field_derivative 1 / (x j - x k)) (at z)"
      by (rule DERIV_cdivide) (auto intro!: derivative_eq_intros)
  qed
  moreover have "{..<n} - {j} - {m} = {..<n} - {j, m}" for m by auto
  ultimately show ?thesis
    unfolding lagrange_def [abs_def] lagrange_deriv_def by simp
qed

lemma lagrange_interpolation:
  assumes "inj_on x {..<n}" "poly_upto (n - 1) f" "0 < n"
  shows "f z = (\<Sum>j<n. f (x j) * lagrange x n j z)"
proof -
  define g where "g z = f z + (- 1) * (\<Sum>j<n. f (x j) * lagrange x n j z)" for z
  have "poly_upto (n - 1) g"
    unfolding g_def [abs_def]
    by (intro poly_upto_add poly_upto_cmult poly_upto_sum assms(2) poly_upto_lagrange) simp
  moreover have "finite (x ` {..<n})" by simp
  moreover have "n - 1 < card (x ` {..<n})"
    using assms(1,3) by (simp add: card_image)
  moreover have "g r = 0" if r: "r \<in> x ` {..<n}" for r
  proof -
    obtain m where m: "m < n" "r = x m" using r by blast
    have "(\<Sum>j<n. f (x j) * lagrange x n j (x m)) = (\<Sum>j<n. if j = m then f (x m) else 0)"
      using m(1) by (intro sum.cong refl) (auto simp: lagrange_at_node [OF assms(1)])
    also have "\<dots> = f (x m)" using m(1) by simp
    finally show ?thesis by (simp add: g_def m(2))
  qed
  ultimately have "g z = 0" by (rule poly_upto_many_roots)
  then show ?thesis by (simp add: g_def)
qed

lemma lagrange_partition_of_unity:
  assumes "inj_on x {..<n}" "0 < n"
  shows "(\<Sum>j<n. lagrange x n j z) = 1"
  using lagrange_interpolation [OF assms(1) poly_upto_const [of "n - 1" 1] assms(2), of z] by simp

lemma lagrange_deriv_sum_zero:
  assumes "inj_on x {..<n}" "0 < n"
  shows "(\<Sum>j<n. lagrange_deriv x n j z) = 0"
proof -
  have "((\<lambda>u. \<Sum>j<n. lagrange x n j u) has_field_derivative (\<Sum>j<n. lagrange_deriv x n j z)) (at z)"
    by (intro DERIV_sum lagrange_has_derivative)
  moreover have "(\<lambda>u. \<Sum>j<n. lagrange x n j u) = (\<lambda>u. 1)"
    using lagrange_partition_of_unity [OF assms] by auto
  ultimately have "((\<lambda>u. 1 :: real) has_field_derivative (\<Sum>j<n. lagrange_deriv x n j z)) (at z)"
    by simp
  moreover have "((\<lambda>u. 1 :: real) has_field_derivative 0) (at z)" by simp
  ultimately show ?thesis by (rule DERIV_unique)
qed


section \<open>The solver on the equation with zero coefficient\<close>

subsection \<open>The local system has only the zero solution of its homogeneous form\<close>

lemma galerkin_nonsingular:
  fixes xi tau W g v :: "nat \<Rightarrow> real"
  assumes q: "1 \<le> q" and xi: "inj_on xi {..<q + 1}" and tau: "inj_on tau {..<q}"
    and W: "\<And>k. k < K \<Longrightarrow> 0 < W k" and pts: "q \<le> card (g ` {..<K})"
    and zero: "\<And>j. j < q \<Longrightarrow>
        (\<Sum>k<K. W k * lagrange tau q j (g k) * (\<Sum>i<q. v i * lagrange_deriv xi (q + 1) (Suc i) (g k))) = 0"
    and m: "m < q"
  shows "v m = 0"
proof -
  define U' where "U' z = (\<Sum>i<q. v i * lagrange_deriv xi (q + 1) (Suc i) z)" for z
  define U where "U z = (\<Sum>i<q. v i * lagrange xi (q + 1) (Suc i) z)" for z
  have polyU': "poly_upto (q - 1) U'"
    unfolding U'_def [abs_def]
  proof (intro poly_upto_sum poly_upto_cmult)
    fix i assume "i \<in> {..<q}"
    then have "Suc i < q + 1" by simp
    from poly_upto_lagrange_deriv [OF this, of xi] show "poly_upto (q - 1) (lagrange_deriv xi (q + 1) (Suc i))"
      by simp
  qed
  have interp: "U' z = (\<Sum>j<q. U' (tau j) * lagrange tau q j z)" for z
    using q by (intro lagrange_interpolation [OF tau polyU']) simp
  have "(\<Sum>k<K. W k * (U' (g k))\<^sup>2) = (\<Sum>k<K. \<Sum>j<q. U' (tau j) * (W k * lagrange tau q j (g k) * U' (g k)))"
  proof (intro sum.cong refl)
    fix k
    have "W k * (U' (g k))\<^sup>2 = W k * U' (g k) * (\<Sum>j<q. U' (tau j) * lagrange tau q j (g k))"
      using interp [of "g k"] by (simp add: power2_eq_square)
    also have "\<dots> = (\<Sum>j<q. U' (tau j) * (W k * lagrange tau q j (g k) * U' (g k)))"
      by (simp add: sum_distrib_left mult_ac)
    finally show "W k * (U' (g k))\<^sup>2 = (\<Sum>j<q. U' (tau j) * (W k * lagrange tau q j (g k) * U' (g k)))" .
  qed
  also have "\<dots> = (\<Sum>j<q. \<Sum>k<K. U' (tau j) * (W k * lagrange tau q j (g k) * U' (g k)))"
    by (rule sum.swap)
  also have "\<dots> = (\<Sum>j<q. U' (tau j) * (\<Sum>k<K. W k * lagrange tau q j (g k) * U' (g k)))"
    by (simp add: sum_distrib_left)
  also have "\<dots> = 0"
    using zero by (simp add: U'_def)
  finally have sq: "(\<Sum>k<K. W k * (U' (g k))\<^sup>2) = 0" .
  have terms: "\<forall>k\<in>{..<K}. W k * (U' (g k))\<^sup>2 = 0"
    using sq W by (subst (asm) sum_nonneg_eq_0_iff) (auto simp: less_imp_le)
  have root: "U' (g k) = 0" if k: "k < K" for k
  proof -
    have "W k * (U' (g k))\<^sup>2 = 0" using terms k by blast
    moreover have "W k \<noteq> 0" using W [OF k] by simp
    ultimately show ?thesis by simp
  qed
  have U'0: "U' z = 0" for z
  proof (rule poly_upto_many_roots [OF polyU'])
    show "finite (g ` {..<K})" by simp
    show "q - 1 < card (g ` {..<K})" using q pts by simp
    show "U' r = 0" if "r \<in> g ` {..<K}" for r using that root by auto
  qed
  have "(U has_field_derivative U' z) (at z)" for z
    unfolding U_def [abs_def] U'_def
    by (intro DERIV_sum DERIV_cmult lagrange_has_derivative)
  then have "\<forall>z. (U has_field_derivative 0) (at z)" using U'0 by simp
  then have const: "U z = U (xi 0)" for z by (rule DERIV_isconst_all)
  have xi': "inj_on xi {..<Suc q}" using xi by simp
  have at_node: "U (xi n) = (\<Sum>i<q. if n = Suc i then v i else 0)" if "n < q + 1" for n
    unfolding U_def using that
    by (intro sum.cong refl) (simp add: lagrange_at_node [OF xi'])
  have "U (xi 0) = 0" using at_node [of 0] by simp
  moreover have "U (xi (Suc m)) = v m"
    using at_node [of "Suc m"] m by simp
  ultimately show ?thesis using const [of "xi (Suc m)"] by simp
qed

subsection \<open>The local matrix for the zero coefficient\<close>

text \<open>The entry of the local matrix in row \<open>j\<close> and column \<open>i\<close> when \<open>F = 0\<close>.\<close>

lemma entry_zero_F:
  assumes "j < q" "i \<le> q"
  shows "GaussQuad_sum p w a b (\<lambda>x. TestLagr a b q j x * (dLagr a b q i x - 0 * Lagr a b q i x))
       = (\<Sum>k<length p. (b - a) / 2 * w ! k
            * lagrange (equispaced a b (q - 1)) q j ((b - a) / 2 * p ! k + (a + b) / 2)
            * lagrange_deriv (equispaced a b q) (q + 1) i ((b - a) / 2 * p ! k + (a + b) / 2))"
  using assms
  by (simp add: GaussQuad_sum_eq TestLagr_lagrange dLagr_lagrange_deriv mult.assoc)

lemma row_sum_zero:
  assumes "a \<noteq> b" "j < q"
  shows "(\<Sum>i<q + 1. \<Sum>k<length p. (b - a) / 2 * w ! k
            * lagrange (equispaced a b (q - 1)) q j ((b - a) / 2 * p ! k + (a + b) / 2)
            * lagrange_deriv (equispaced a b q) (q + 1) i ((b - a) / 2 * p ! k + (a + b) / 2)) = 0"
proof -
  let ?g = "\<lambda>k. (b - a) / 2 * p ! k + (a + b) / 2"
  have "(\<Sum>i<q + 1. \<Sum>k<length p. (b - a) / 2 * w ! k
            * lagrange (equispaced a b (q - 1)) q j (?g k)
            * lagrange_deriv (equispaced a b q) (q + 1) i (?g k))
      = (\<Sum>k<length p. \<Sum>i<q + 1. (b - a) / 2 * w ! k
            * lagrange (equispaced a b (q - 1)) q j (?g k)
            * lagrange_deriv (equispaced a b q) (q + 1) i (?g k))"
    by (rule sum.swap)
  also have "\<dots> = (\<Sum>k<length p. (b - a) / 2 * w ! k
            * lagrange (equispaced a b (q - 1)) q j (?g k)
            * (\<Sum>i<q + 1. lagrange_deriv (equispaced a b q) (q + 1) i (?g k)))"
    by (intro sum.cong refl) (rule sum_distrib_left [symmetric])
  also have "\<dots> = 0"
    using lagrange_deriv_sum_zero [OF equispaced_inj' [OF assms(1), of q]] by simp
  finally show ?thesis .
qed

subsection \<open>Matrices given by their entries\<close>

lemma mat_vec_entries:
  assumes "length v = q"
  shows "mat_vec (map (\<lambda>j. map (\<lambda>i. E j i) [0..<q]) [0..<q]) v
       = map (\<lambda>j. \<Sum>i<q. E j i * v ! i) [0..<q]"
  using assms by (simp add: mat_vec_def)

lemma replicate_eq_iff_nth:
  "length v = q \<Longrightarrow> v = replicate q c \<longleftrightarrow> (\<forall>i<q. v ! i = c)"
  by (auto simp: list_eq_iff_nth_eq)

lemma exact_solver_constant_solution:
  assumes solver: "exact_solver solve q"
    and nonsing: "\<And>v. (\<And>j. j < q \<Longrightarrow> (\<Sum>i<q. E j i * v i) = 0) \<Longrightarrow> (\<forall>i<q. v i = (0::real))"
    and sol: "\<And>j. j < q \<Longrightarrow> (\<Sum>i<q. E j i * c) = B j"
  shows "solve (map (\<lambda>j. map (\<lambda>i. E j i) [0..<q]) [0..<q]) (map B [0..<q]) = Inr (replicate q c)"
proof -
  let ?A = "map (\<lambda>j. map (\<lambda>i. E j i) [0..<q]) [0..<q]"
  let ?b = "map B [0..<q]"
  have shape: "length ?A = q \<and> (\<forall>row\<in>set ?A. length row = q) \<and> length ?b = q" by auto
  with solver have contract:
    "case solve ?A ?b of
       Inr s \<Rightarrow> length s = q \<and> mat_vec ?A s = ?b
     | Inl e \<Rightarrow> \<exists>v. length v = q \<and> v \<noteq> replicate q 0 \<and> mat_vec ?A v = replicate q 0"
    unfolding exact_solver_def by blast
  show ?thesis
  proof (cases "solve ?A ?b")
    case (Inl e)
    with contract obtain v where v: "length v = q" "v \<noteq> replicate q 0" "mat_vec ?A v = replicate q 0"
      by auto
    have "(\<Sum>i<q. E j i * v ! i) = 0" if "j < q" for j
    proof -
      have "mat_vec ?A v ! j = (\<Sum>i<q. E j i * v ! i)"
        using that by (simp add: mat_vec_entries [OF v(1)])
      then show ?thesis using v(3) that by simp
    qed
    from nonsing [of "\<lambda>i. v ! i", OF this] have "v = replicate q 0"
      using v(1) by (simp add: replicate_eq_iff_nth)
    with v(2) show ?thesis by simp
  next
    case (Inr s)
    with contract have s: "length s = q" "mat_vec ?A s = ?b" by auto
    have row: "(\<Sum>i<q. E j i * s ! i) = B j" if "j < q" for j
    proof -
      have "mat_vec ?A s ! j = (\<Sum>i<q. E j i * s ! i)"
        using that by (simp add: mat_vec_entries [OF s(1)])
      then show ?thesis using s(2) that by simp
    qed
    have "(\<Sum>i<q. E j i * (s ! i - c)) = 0" if "j < q" for j
      using row [OF that] sol [OF that] by (simp add: right_diff_distrib sum_subtractf)
    from nonsing [of "\<lambda>i. s ! i - c", OF this] have "s = replicate q c"
      using s(1) by (simp add: replicate_eq_iff_nth)
    with Inr show ?thesis by simp
  qed
qed

subsection \<open>One subinterval with the zero coefficient\<close>

lemma solve_lin_step_zero_F:
  assumes ab: "t ! n < t ! (n + 1)" and q: "1 \<le> q"
    and rule: "leggauss (5 * q) = (p, w)" "distinct p" "q \<le> length p" "\<And>k. k < length p \<Longrightarrow> 0 < w ! k"
    and solver: "exact_solver solve q"
    and len: "(n + 1) * q + 1 \<le> length y"
  shows "solve_lin_step leggauss solve (\<lambda>x. 0) t q n y
       = Inr (take (n * q + 1) y @ replicate q (y ! (n * q)) @ drop ((n + 1) * q + 1) y)"
proof -
  define a where "a = t ! n"
  define b where "b = t ! (n + 1)"
  define C where "C = (b - a) / 2"
  define g where "g k = C * p ! k + (a + b) / 2" for k
  define tau where "tau = equispaced a b (q - 1)"
  define xi where "xi = equispaced a b q"
  define e where "e j i = (\<Sum>k<length p. C * w ! k * lagrange tau q j (g k) * lagrange_deriv xi (q + 1) i (g k))" for j i
  define c where "c = y ! (n * q)"
  have ne: "a \<noteq> b" and Cpos: "0 < C" using ab by (simp_all add: a_def b_def C_def)
  have xi_inj: "inj_on xi {..<q + 1}" unfolding xi_def by (rule equispaced_inj' [OF ne])
  have tau_inj: "inj_on tau {..<q}"
    using equispaced_inj' [OF ne, of "q - 1"] q by (simp add: tau_def)
  \<comment> \<open>the assembled matrix\<close>
  have entry: "GaussQuad_sum p w a b (\<lambda>x. TestLagr a b q j x * (dLagr a b q i x - 0 * Lagr a b q i x)) = e j i"
    if "j < q" "i \<le> q" for j i
    using entry_zero_F [OF that, where p = p and w = w and a = a and b = b] by (simp add: e_def C_def g_def tau_def xi_def)
  have "local_matrix leggauss (\<lambda>x. 0) a b q
      = Inr (map (\<lambda>j. map (\<lambda>i. GaussQuad_sum p w a b
           (\<lambda>x. TestLagr a b q j x * (dLagr a b q i x - 0 * Lagr a b q i x))) [0..<q + 1]) [0..<q])"
    using local_matrix_eval [OF q, of leggauss "\<lambda>x. 0" a b] rule(1) by simp
  also have "map (\<lambda>j. map (\<lambda>i. GaussQuad_sum p w a b
           (\<lambda>x. TestLagr a b q j x * (dLagr a b q i x - 0 * Lagr a b q i x))) [0..<q + 1]) [0..<q]
      = map (\<lambda>j. map (\<lambda>i. e j i) [0..<q + 1]) [0..<q]"
  proof (intro map_cong refl)
    fix j i assume "j \<in> set [0..<q]" "i \<in> set [0..<q + 1]"
    then have "j < q" "i \<le> q" by auto
    then show "GaussQuad_sum p w a b (\<lambda>x. TestLagr a b q j x * (dLagr a b q i x - 0 * Lagr a b q i x)) = e j i"
      by (rule entry)
  qed
  finally have matrix: "local_matrix leggauss (\<lambda>x. 0) (t ! n) (t ! (n + 1)) q
      = Inr (map (\<lambda>j. map (\<lambda>i. e j i) [0..<q + 1]) [0..<q])"
    by (simp add: a_def b_def)
  have "drop 1 (take (q + 1) (map (\<lambda>i. e j i) [0..<q + 1])) = map (\<lambda>i. e j (Suc i)) [0..<q]" for j
  proof -
    have "drop 1 (take (q + 1) (map (\<lambda>i. e j i) [0..<q + 1])) = map (\<lambda>i. e j i) [1..<q + 1]"
      by (simp add: drop_map del: upt_Suc)
    also have "[1..<q + 1] = map Suc [0..<q]" by (simp add: map_Suc_upt del: upt_Suc)
    finally show ?thesis by (simp add: comp_def)
  qed
  then have A: "map (\<lambda>row. drop 1 (take (q + 1) row)) (take q (map (\<lambda>j. map (\<lambda>i. e j i) [0..<q + 1]) [0..<q]))
      = map (\<lambda>j. map (\<lambda>i. e j (Suc i)) [0..<q]) [0..<q]"
    by (simp del: upt_Suc)
  have B: "map (\<lambda>row. - (y ! (n * q)) * row ! 0) (map (\<lambda>j. map (\<lambda>i. e j i) [0..<q + 1]) [0..<q])
      = map (\<lambda>j. - c * e j 0) [0..<q]"
    by (simp add: c_def del: upt_Suc)
  \<comment> \<open>the constant vector solves the system\<close>
  have rowsum: "(\<Sum>i<q. e j (Suc i) * c) = - c * e j 0" if "j < q" for j
  proof -
    have "(\<Sum>i<q + 1. e j i) = 0"
      using row_sum_zero [OF ne that, where p = p and w = w] by (simp add: e_def C_def g_def tau_def xi_def)
    moreover have "(\<Sum>i<q + 1. e j i) = e j 0 + (\<Sum>i<q. e j (Suc i))"
      using sum.lessThan_Suc_shift [of "e j" q] by simp
    ultimately have "e j 0 + (\<Sum>i<q. e j (Suc i)) = 0"
      by simp
    then have "(\<Sum>i<q. e j (Suc i)) = - e j 0" by simp
    then show ?thesis by (simp add: sum_distrib_right [symmetric])
  qed
  \<comment> \<open>the homogeneous system has only the zero solution\<close>
  have g_inj: "inj_on g {..<length p}"
    using rule(2) Cpos by (auto simp: inj_on_def g_def nth_eq_iff_index_eq)
  have pts: "q \<le> card (g ` {..<length p})"
    using rule(3) by (simp add: card_image [OF g_inj])
  have nonsing: "\<forall>i<q. v i = 0" if hom: "\<And>j. j < q \<Longrightarrow> (\<Sum>i<q. e j (Suc i) * v i) = 0" for v :: "nat \<Rightarrow> real"
  proof (intro allI impI)
    fix m assume m: "m < q"
    have zero: "(\<Sum>k<length p. (C * w ! k) * lagrange tau q j (g k)
                  * (\<Sum>i<q. v i * lagrange_deriv xi (q + 1) (Suc i) (g k))) = 0" if j: "j < q" for j
    proof -
      have "(\<Sum>k<length p. (C * w ! k) * lagrange tau q j (g k)
                  * (\<Sum>i<q. v i * lagrange_deriv xi (q + 1) (Suc i) (g k)))
          = (\<Sum>k<length p. \<Sum>i<q. (C * w ! k * lagrange tau q j (g k) * lagrange_deriv xi (q + 1) (Suc i) (g k)) * v i)"
        by (intro sum.cong refl) (simp add: sum_distrib_left mult_ac)
      also have "\<dots> = (\<Sum>i<q. \<Sum>k<length p. (C * w ! k * lagrange tau q j (g k) * lagrange_deriv xi (q + 1) (Suc i) (g k)) * v i)"
        by (rule sum.swap)
      also have "\<dots> = (\<Sum>i<q. e j (Suc i) * v i)"
        by (simp add: e_def sum_distrib_right)
      finally show ?thesis using hom [OF j] by simp
    qed
    show "v m = 0"
    proof (rule galerkin_nonsingular [OF q xi_inj tau_inj _ pts _ m])
      show "0 < C * w ! k" if "k < length p" for k
        using rule(4) [OF that] Cpos by simp
      show "(\<Sum>k<length p. (C * w ! k) * lagrange tau q j (g k)
                  * (\<Sum>i<q. v i * lagrange_deriv xi (q + 1) (Suc i) (g k))) = 0" if "j < q" for j
        using zero [OF that] .
    qed
  qed
  have solved: "solve (map (\<lambda>j. map (\<lambda>i. e j (Suc i)) [0..<q]) [0..<q]) (map (\<lambda>j. - c * e j 0) [0..<q])
      = Inr (replicate q c)"
    by (rule exact_solver_constant_solution [OF solver nonsing rowsum])
  have "assign_slice y (n * q + 1) ((n + 1) * q + 1) (replicate q c)
      = Inr (take (n * q + 1) y @ replicate q c @ drop ((n + 1) * q + 1) y)"
    using len by (intro assign_slice_fits) simp_all
  then show ?thesis
    unfolding solve_lin_step_def matrix bind_Inr Let_def A B solved
    by (simp add: c_def)
qed

subsection \<open>All subintervals\<close>

lemma solve_lin_loop_zero_F:
  assumes mesh: "sorted_wrt (<) t" and q: "1 \<le> q"
    and rule: "leggauss (5 * q) = (p, w)" "distinct p" "q \<le> length p" "\<And>k. k < length p \<Longrightarrow> 0 < w ! k"
    and solver: "exact_solver solve q"
    and n: "n \<le> length t - 1"
  shows "fold (\<lambda>n r. bind r (solve_lin_step leggauss solve (\<lambda>x. 0) t q n)) [0..<n]
           (Inr ((replicate ((length t - 1) * q + 1) 0)[0 := y0]))
       = Inr (replicate (n * q + 1) y0 @ replicate ((length t - 1 - n) * q) 0)"
  using n
proof (induction n)
  case 0
  then show ?case by simp
next
  case (Suc n)
  let ?N = "length t - 1"
  let ?y = "replicate (n * q + 1) y0 @ replicate ((?N - n) * q) 0"
  have n: "n < ?N" using Suc.prems by simp
  have ab: "t ! n < t ! (n + 1)"
    using sorted_wrt_nth_less [OF mesh, of n "n + 1"] n by simp
  have "(n + 1) * q \<le> ?N * q" using n by (intro mult_le_mono1) simp
  moreover have "n * q + (?N - n) * q = ?N * q"
    using n by (simp flip: add_mult_distrib)
  then have leny: "length ?y = ?N * q + 1" by simp
  ultimately have len: "(n + 1) * q + 1 \<le> length ?y" by simp
  have "replicate (n * q + 1) y0 ! (n * q) = y0" by (rule nth_replicate) simp
  then have yn: "?y ! (n * q) = y0" by (simp only: nth_append length_replicate) simp
  have tk: "take (n * q + 1) ?y = replicate (n * q + 1) y0" by simp
  have "?N - n = Suc (?N - Suc n)" using n by simp
  then have "(?N - n) * q = q + (?N - Suc n) * q" by simp
  then have dr: "drop ((n + 1) * q + 1) ?y = replicate ((?N - Suc n) * q) 0"
    by (simp add: algebra_simps)
  have "solve_lin_step leggauss solve (\<lambda>x. 0) t q n ?y
      = Inr (replicate (n * q + 1) y0 @ replicate q y0 @ replicate ((?N - Suc n) * q) 0)"
    using solve_lin_step_zero_F [where t = t and n = n and y = ?y and q = q
        and leggauss = leggauss and p = p and w = w and solve = solve, OF ab q rule solver len]
    by (simp only: yn tk dr)
  also have "replicate (n * q + 1) y0 @ replicate q y0 @ replicate ((?N - Suc n) * q) 0
      = replicate (Suc n * q + 1) y0 @ replicate ((?N - Suc n) * q) 0"
    by (simp add: replicate_add [symmetric] algebra_simps)
  finally have step: "solve_lin_step leggauss solve (\<lambda>x. 0) t q n ?y
      = Inr (replicate (Suc n * q + 1) y0 @ replicate ((?N - Suc n) * q) 0)" .
  have "fold (\<lambda>n r. bind r (solve_lin_step leggauss solve (\<lambda>x. 0) t q n)) [0..<Suc n]
           (Inr ((replicate (?N * q + 1) 0)[0 := y0]))
      = bind (Inr ?y) (solve_lin_step leggauss solve (\<lambda>x. 0) t q n)"
    using Suc.IH n by simp
  then show ?case by (simp only: bind_Inr step)
qed

lemma diagonal_solve_exact_1: "exact_solver diagonal_solve 1"
  unfolding exact_solver_def
proof (intro allI impI)
  fix A :: "real list list" and b :: "real list"
  assume "length A = 1 \<and> (\<forall>row\<in>set A. length row = 1) \<and> length b = 1"
  then obtain a b0 where A: "A = [[a]]" and b: "b = [b0]"
    by (auto simp: length_Suc_conv)
  show "case diagonal_solve A b of
          Inl e \<Rightarrow> \<exists>v. length v = 1 \<and> v \<noteq> replicate 1 0 \<and> mat_vec A v = replicate 1 0
        | Inr s \<Rightarrow> length s = 1 \<and> mat_vec A s = b"
  proof (cases "a = 0")
    case True
    have "length [1::real] = 1 \<and> [1::real] \<noteq> replicate 1 0 \<and> mat_vec A [1] = replicate 1 0"
      using True by (simp add: A mat_vec_def)
    then show ?thesis using True by (auto simp: A b diagonal_solve_def intro!: exI [of _ "[1]"])
  next
    case False
    then show ?thesis by (simp add: A b diagonal_solve_def mat_vec_def)
  qed
qed

text \<open>
  C6. Let the mesh be strictly increasing with at least two nodes and the degree \<open>q\<close>
  positive. Let \<^verbatim>\<open>leggauss(5*q)\<close> return \<open>5q\<close> distinct points with positive weights
  (as the Gauss--Legendre rule does), and let \<^verbatim>\<open>np.linalg.solve\<close> be exact on
  \<open>q \<times> q\<close> systems. Then for the coefficient function \<open>F(t) = 0\<close> and every initial
  value \<open>y0\<close>, \<^verbatim>\<open>solve_lin\<close> returns the nodal vector whose \<open>N*q + 1\<close> entries all
  equal \<open>y0\<close>: every local system is non-singular and its solution is the constant
  vector.
\<close>

theorem solve_lin_zero_coefficient:
  assumes "sorted_wrt (<) t" "2 \<le> length t" "1 \<le> q"
    and "leggauss (5 * q) = (p, w)" "length p = 5 * q" "length w = 5 * q" "distinct p"
    and "\<forall>wk\<in>set w. 0 < wk"
    and "exact_solver solve q"
  shows "solve_lin leggauss solve y0 (\<lambda>x. 0) t q = Inr (replicate ((length t - 1) * q + 1) y0)"
proof -
  have t: "t \<noteq> []" using assms(2) by auto
  have sz: "nat ((int (length t) - 1) * int q + 1) = (length t - 1) * q + 1"
    and pos: "0 < (int (length t) - 1) * int q + 1" and N: "nat (int (length t) - 1) = length t - 1"
    using t by (cases t; simp add: nat_add_distrib nat_mult_distrib)+
  have w: "0 < w ! k" if "k < length p" for k
    using assms(5,6,8) that by simp
  have "q \<le> length p" using assms(5) by simp
  have "fold (\<lambda>n r. bind r (solve_lin_step leggauss solve (\<lambda>x. 0) t q n)) [0..<length t - 1]
           (Inr ((replicate ((length t - 1) * q + 1) 0)[0 := y0]))
       = Inr (replicate ((length t - 1) * q + 1) y0 @ replicate ((length t - 1 - (length t - 1)) * q) 0)"
    by (rule solve_lin_loop_zero_F [where n = "length t - 1" and t = t and q = q
          and leggauss = leggauss and p = p and w = w and solve = solve,
          OF assms(1,3,4,7) \<open>q \<le> length p\<close> w assms(9) order_refl])
  then show ?thesis
    using assms(3) sz pos N by (simp add: solve_lin_def Let_def)
qed

theorem solve_lin_zero_coefficient_witness:
  "sorted_wrt (<) [0, 1 :: real] \<and> 2 \<le> length [0, 1 :: real] \<and> (1 :: nat) \<le> 1
   \<and> midpoint_rule (5 * 1) = ([- 4 / 5, - 2 / 5, 0, 2 / 5, 4 / 5], [2 / 5, 2 / 5, 2 / 5, 2 / 5, 2 / 5])
   \<and> length [- 4 / 5, - 2 / 5, 0, 2 / 5, 4 / 5 :: real] = 5 * 1
   \<and> length [2 / 5, 2 / 5, 2 / 5, 2 / 5, 2 / 5 :: real] = 5 * 1
   \<and> distinct [- 4 / 5, - 2 / 5, 0, 2 / 5, 4 / 5 :: real]
   \<and> list_all (\<lambda>wk. 0 < wk) [2 / 5, 2 / 5, 2 / 5, 2 / 5, 2 / 5 :: real]
   \<and> exact_solver diagonal_solve 1
   \<and> solve_lin midpoint_rule diagonal_solve 3 (\<lambda>x. 0) [0, 1] 1 = Inr (replicate ((length [0, 1 :: real] - 1) * 1 + 1) 3)"
  using solve_lin_zero_coefficient [of "[0, 1]" 1 midpoint_rule "[- 4 / 5, - 2 / 5, 0, 2 / 5, 4 / 5]"
      "[2 / 5, 2 / 5, 2 / 5, 2 / 5, 2 / 5]" diagonal_solve 3]
    midpoint_rule_5 diagonal_solve_exact_1
  by simp

end
